theory Spec2Isabelle
  imports Main "HOL-Library.Char_ord" "HOL-Library.List_Lexorder"
begin

section \<open>The fake router (router/routertest/router.go)\<close>

subsection \<open>Data model\<close>

text \<open>
  The sentinel errors of package \<open>router\<close> that the fake router returns, and the
  router's own \<open>ErrForcedFailure\<close>. A Go \<open>error\<close> result is an
  \<open>router_error option\<close>: \<open>None\<close> is \<open>nil\<close>.
\<close>

datatype router_error =
    ErrBackendExists
  | ErrBackendNotFound
  | ErrBackendSwapped
  | ErrRouteExists
  | ErrRouteNotFound
  | ErrCNameExists
  | ErrCNameNotFound
  | ErrCNameNotAllowed
  | ErrForcedFailure

text \<open>
  The struct \<open>fakeRouter\<close>. Its four Go maps are partial functions; a route list
  is a list of rendered addresses (\<open>addr.String()\<close>). The router only stores and
  returns values of \<open>router.HealthcheckData\<close>, a type of package \<open>router\<close>, so
  that type is the parameter \<open>'h\<close>. The mutex is not modelled: every operation is
  taken as a whole.

  The last field, \<open>routers\<close>, is not a field of the struct. It is the
  name-resolution record that the router reaches through \<open>router.Store\<close>,
  \<open>router.Retrieve\<close> and \<open>router.Remove\<close>, kept beside the router's own maps so
  that one state is passed along.
\<close>

record 'h fakeRouter =
  backends :: "string \<rightharpoonup> string list"
  cnames :: "string \<rightharpoonup> string"
  failuresByIp :: "string \<rightharpoonup> bool"
  healthcheck :: "string \<rightharpoonup> 'h"
  routers :: "string \<rightharpoonup> string"

definition newFakeRouter :: "(string \<rightharpoonup> string) \<Rightarrow> 'h fakeRouter" where
  "newFakeRouter db =
     \<lparr>backends = Map.empty, cnames = Map.empty, failuresByIp = Map.empty,
      healthcheck = Map.empty, routers = db\<rparr>"

subsection \<open>The name-resolution record\<close>

text \<open>
  Modelled from the spec: \<open>router.Retrieve\<close>, a function of package \<open>router\<close>
  that these files call and do not define. "A durable mapping from application name to
  backend name, queried by \<open>Retrieve(name) -> (backendName, error)\<close>". A name without
  an entry is reported as \<open>ErrBackendNotFound\<close>, the not-found kind of the spec's
  closed set of errors.
\<close>

definition Retrieve :: "'h fakeRouter \<Rightarrow> string \<Rightarrow> router_error + string" where
  "Retrieve r name =
     (case routers r name of None \<Rightarrow> Inl ErrBackendNotFound | Some b \<Rightarrow> Inr b)"

text \<open>
  Modelled from the spec: \<open>router.Store\<close>, a function of package \<open>router\<close> that
  these files call and do not define. The mapping is "written by \<open>Store\<close>": the
  application name now resolves to the backend name. The third argument, the kind of
  the router, is not part of what the mapping holds.
\<close>

definition Store ::
  "'h fakeRouter \<Rightarrow> string \<Rightarrow> string \<Rightarrow> string \<Rightarrow> router_error option \<times> 'h fakeRouter"
where
  "Store r appName routerName kind =
     (None, r\<lparr>routers := (routers r)(appName \<mapsto> routerName)\<rparr>)"

text \<open>
  Modelled from the spec: \<open>router.Remove\<close>, a function of package \<open>router\<close> that
  these files call and do not define. An entry of the mapping is "removed by
  \<open>Remove\<close>"; a name without an entry is reported as \<open>ErrBackendNotFound\<close>.
\<close>

definition Remove :: "'h fakeRouter \<Rightarrow> string \<Rightarrow> router_error option \<times> 'h fakeRouter" where
  "Remove r appName =
     (case routers r appName of
        None \<Rightarrow> (Some ErrBackendNotFound, r)
      | Some b \<Rightarrow> (None, r\<lparr>routers := (routers r)(appName := None)\<rparr>))"

subsection \<open>Queries and failure injection\<close>

definition FailForIp :: "'h fakeRouter \<Rightarrow> string \<Rightarrow> 'h fakeRouter" where
  "FailForIp r ip = r\<lparr>failuresByIp := (failuresByIp r)(ip \<mapsto> True)\<rparr>"

definition RemoveFailForIp :: "'h fakeRouter \<Rightarrow> string \<Rightarrow> 'h fakeRouter" where
  "RemoveFailForIp r ip = r\<lparr>failuresByIp := (failuresByIp r)(ip := None)\<rparr>"

text \<open>The read \<open>r.failuresByIp[ip]\<close>: a key that is not in a Go map reads as \<open>false\<close>.\<close>

definition failing :: "'h fakeRouter \<Rightarrow> string \<Rightarrow> bool" where
  "failing r ip = (case failuresByIp r ip of None \<Rightarrow> False | Some b \<Rightarrow> b)"

text \<open>\<open>GetHealthcheck\<close>: \<open>None\<close> is the zero value read for a name without a record.\<close>

definition GetHealthcheck :: "'h fakeRouter \<Rightarrow> string \<Rightarrow> 'h option" where
  "GetHealthcheck r name = healthcheck r name"

definition HasBackend :: "'h fakeRouter \<Rightarrow> string \<Rightarrow> bool" where
  "HasBackend r name = (case backends r name of None \<Rightarrow> False | Some routes \<Rightarrow> True)"

definition HasCName :: "'h fakeRouter \<Rightarrow> string \<Rightarrow> bool" where
  "HasCName r name = (case cnames r name of None \<Rightarrow> False | Some b \<Rightarrow> True)"

text \<open>The loop \<open>for _, route := range routes { if route == address { return true } }\<close>.\<close>

primrec hasAddress :: "string list \<Rightarrow> string \<Rightarrow> bool" where
  "hasAddress [] address = False"
| "hasAddress (route # routes) address =
     (if route = address then True else hasAddress routes address)"

text \<open>
  \<open>HasRoute\<close> falls back to the alias table; \<open>r.cnames[name]\<close> of a name that is
  no alias is the empty string.
\<close>

definition HasRoute :: "'h fakeRouter \<Rightarrow> string \<Rightarrow> string \<Rightarrow> bool" where
  "HasRoute r name address =
     (case backends r name of
        Some routes \<Rightarrow> hasAddress routes address
      | None \<Rightarrow>
          (case backends r (case cnames r name of None \<Rightarrow> [] | Some b \<Rightarrow> b) of
             None \<Rightarrow> False
           | Some routes \<Rightarrow> hasAddress routes address))"

text \<open>The read \<open>r.backends[name]\<close>: the nil slice for a name that is no key.\<close>

definition routesOf :: "'h fakeRouter \<Rightarrow> string \<Rightarrow> string list" where
  "routesOf r name = (case backends r name of None \<Rightarrow> [] | Some routes \<Rightarrow> routes)"

subsection \<open>Backends\<close>

definition AddBackend :: "'h fakeRouter \<Rightarrow> string \<Rightarrow> router_error option \<times> 'h fakeRouter" where
  "AddBackend r name =
     (if HasBackend r name then (Some ErrBackendExists, r)
      else Store (r\<lparr>backends := (backends r)(name \<mapsto> [])\<rparr>) name name ''fake'')"

text \<open>
  The loop of \<open>RemoveBackend\<close> over \<open>r.cnames\<close> deletes every alias whose
  backend is the one removed.
\<close>

definition dropCNamesOf :: "(string \<rightharpoonup> string) \<Rightarrow> string \<Rightarrow> (string \<rightharpoonup> string)" where
  "dropCNamesOf cs backendName =
     (\<lambda>cname. case cs cname of
        None \<Rightarrow> None
      | Some backend \<Rightarrow> if backend = backendName then None else Some backend)"

definition RemoveBackend :: "'h fakeRouter \<Rightarrow> string \<Rightarrow> router_error option \<times> 'h fakeRouter" where
  "RemoveBackend r name =
     (case Retrieve r name of
        Inl err \<Rightarrow> (Some err, r)
      | Inr backendName \<Rightarrow>
          if backendName \<noteq> name then (Some ErrBackendSwapped, r)
          else if \<not> HasBackend r backendName then (Some ErrBackendNotFound, r)
          else Remove
                 (r\<lparr>cnames := dropCNamesOf (cnames r) backendName,
                    backends := (backends r)(backendName := None)\<rparr>)
                 backendName)"

subsection \<open>Routes\<close>

text \<open>
  The first loop of \<open>AddRoutes\<close> and \<open>RemoveRoutes\<close>: is any address of the batch
  flagged as failing?
\<close>

primrec anyFailing :: "'h fakeRouter \<Rightarrow> string list \<Rightarrow> bool" where
  "anyFailing r [] = False"
| "anyFailing r (addr # addresses) = (if failing r addr then True else anyFailing r addresses)"

text \<open>
  The second loop of \<open>AddRoutes\<close>: an address that is among the routes is skipped
  (\<open>continue addresses\<close>), any other is appended.
\<close>

primrec addAddresses :: "string list \<Rightarrow> string list \<Rightarrow> string list" where
  "addAddresses routes [] = routes"
| "addAddresses routes (addr # addresses) =
     addAddresses (if hasAddress routes addr then routes else routes @ [addr]) addresses"

definition AddRoutes ::
  "'h fakeRouter \<Rightarrow> string \<Rightarrow> string list \<Rightarrow> router_error option \<times> 'h fakeRouter"
where
  "AddRoutes r name addresses =
     (case Retrieve r name of
        Inl err \<Rightarrow> (Some err, r)
      | Inr backendName \<Rightarrow>
          if \<not> HasBackend r backendName then (Some ErrBackendNotFound, r)
          else if anyFailing r addresses then (Some ErrForcedFailure, r)
          else (None, r\<lparr>backends :=
                  (backends r)(backendName \<mapsto>
                     addAddresses (routesOf r backendName) addresses)\<rparr>))"

text \<open>
  The inner loop of \<open>RemoveRoutes\<close>: the first route equal to the address is cut out
  (\<open>append(routes[:i], routes[i+1:]...)\<close>) and the loop is left.
\<close>

primrec cutAddress :: "string list \<Rightarrow> string \<Rightarrow> string list" where
  "cutAddress [] addr = []"
| "cutAddress (route # routes) addr =
     (if route = addr then routes else route # cutAddress routes addr)"

primrec cutAddresses :: "string list \<Rightarrow> string list \<Rightarrow> string list" where
  "cutAddresses routes [] = routes"
| "cutAddresses routes (addr # addresses) = cutAddresses (cutAddress routes addr) addresses"

definition RemoveRoutes ::
  "'h fakeRouter \<Rightarrow> string \<Rightarrow> string list \<Rightarrow> router_error option \<times> 'h fakeRouter"
where
  "RemoveRoutes r name addresses =
     (case Retrieve r name of
        Inl err \<Rightarrow> (Some err, r)
      | Inr backendName \<Rightarrow>
          if \<not> HasBackend r backendName then (Some ErrBackendNotFound, r)
          else if anyFailing r addresses then (Some ErrForcedFailure, r)
          else (None, r\<lparr>backends :=
                  (backends r)(backendName \<mapsto>
                     cutAddresses (routesOf r backendName) addresses)\<rparr>))"

definition AddRoute ::
  "'h fakeRouter \<Rightarrow> string \<Rightarrow> string \<Rightarrow> router_error option \<times> 'h fakeRouter"
where
  "AddRoute r name address =
     (case Retrieve r name of
        Inl err \<Rightarrow> (Some err, r)
      | Inr backendName \<Rightarrow>
          if \<not> HasBackend r backendName then (Some ErrBackendNotFound, r)
          else if HasRoute r backendName address then (Some ErrRouteExists, r)
          else if failing r address then (Some ErrForcedFailure, r)
          else (None, r\<lparr>backends :=
                  (backends r)(backendName \<mapsto> routesOf r backendName @ [address])\<rparr>))"

text \<open>
  The search loop of \<open>RemoveRoute\<close> gives the index of the first route equal to
  the address (\<open>None\<close> for the Go index \<open>-1\<close>); the route there is overwritten
  with the last one and the list loses its last element.
\<close>

primrec indexOf :: "string list \<Rightarrow> string \<Rightarrow> nat option" where
  "indexOf [] address = None"
| "indexOf (route # routes) address =
     (if route = address then Some 0
      else (case indexOf routes address of None \<Rightarrow> None | Some i \<Rightarrow> Some (Suc i)))"

definition RemoveRoute ::
  "'h fakeRouter \<Rightarrow> string \<Rightarrow> string \<Rightarrow> router_error option \<times> 'h fakeRouter"
where
  "RemoveRoute r name address =
     (case Retrieve r name of
        Inl err \<Rightarrow> (Some err, r)
      | Inr backendName \<Rightarrow>
          if \<not> HasBackend r backendName then (Some ErrBackendNotFound, r)
          else if failing r address then (Some ErrForcedFailure, r)
          else (let routes = routesOf r backendName in
                case indexOf routes address of
                  None \<Rightarrow> (Some ErrRouteNotFound, r)
                | Some index \<Rightarrow>
                    (None, r\<lparr>backends :=
                       (backends r)(backendName \<mapsto>
                          butlast (routes[index := last routes]))\<rparr>)))"

subsection \<open>Aliases and health records\<close>

text \<open>
  \<open>router.ValidCName\<close> is a function of package \<open>router\<close> that these files call
  and do not define; it is the parameter \<open>validCName\<close>, called with the alias and the
  domain \<open>fakerouter.com\<close>.
\<close>

definition SetCName ::
  "(string \<Rightarrow> string \<Rightarrow> bool) \<Rightarrow> 'h fakeRouter \<Rightarrow> string \<Rightarrow> string \<Rightarrow>
   router_error option \<times> 'h fakeRouter"
where
  "SetCName validCName r cname name =
     (case Retrieve r name of
        Inl err \<Rightarrow> (Some err, r)
      | Inr backendName \<Rightarrow>
          if \<not> HasBackend r backendName then (None, r)
          else if \<not> validCName cname ''fakerouter.com'' then (Some ErrCNameNotAllowed, r)
          else (case cnames r cname of
                  Some b \<Rightarrow> (Some ErrCNameExists, r)
                | None \<Rightarrow> (None, r\<lparr>cnames := (cnames r)(cname \<mapsto> backendName)\<rparr>)))"

definition UnsetCName ::
  "'h fakeRouter \<Rightarrow> string \<Rightarrow> string \<Rightarrow> router_error option \<times> 'h fakeRouter"
where
  "UnsetCName r cname name =
     (case Retrieve r name of
        Inl err \<Rightarrow> (Some err, r)
      | Inr backendName \<Rightarrow>
          if \<not> HasBackend r backendName then (None, r)
          else (case cnames r cname of
                  None \<Rightarrow> (Some ErrCNameNotFound, r)
                | Some b \<Rightarrow> (None, r\<lparr>cnames := (cnames r)(cname := None)\<rparr>)))"

definition SetHealthcheck ::
  "'h fakeRouter \<Rightarrow> string \<Rightarrow> 'h \<Rightarrow> router_error option \<times> 'h fakeRouter"
where
  "SetHealthcheck r name data =
     (case Retrieve r name of
        Inl err \<Rightarrow> (Some err, r)
      | Inr backendName \<Rightarrow> (None, r\<lparr>healthcheck := (healthcheck r)(backendName \<mapsto> data)\<rparr>))"

section \<open>The application aggregate (package app)\<close>

subsection \<open>Data model\<close>

text \<open>
  A Go \<open>error\<close> of the application code: the \<open>*ValidationError\<close> that
  \<open>CreateApp\<close> builds, or any other error value, given by its message
  (\<open>errors.New\<close>, and the errors of the packages the code calls). \<open>nil\<close> is
  \<open>None\<close> of \<open>app_error option\<close>.
\<close>

datatype app_error = ValidationError string | ErrorString string

fun Error :: "app_error \<Rightarrow> string" where
  "Error (ValidationError message) = message"
| "Error (ErrorString message) = message"

text \<open>
  \<open>bind.EnvVar\<close> and \<open>Unit\<close> are declared in other files. Of an
  environment variable the code reads the fields \<open>Name\<close>, \<open>Value\<close>,
  \<open>Public\<close> and \<open>InstanceName\<close>; of a unit it reads \<open>Machine\<close> only (a machine
  number, compared with \<open>==\<close>), so the other fields of a unit are the type parameter
  \<open>'d\<close>. The \<open>Date\<close> of a log entry
  (\<open>time.Now()\<close>) is left out.
\<close>

record EnvVar =
  Name :: string
  Value :: string
  Public :: bool
  InstanceName :: string

record Applog =
  Message :: string
  Source :: string

record conf =
  PreRestart :: "string list"
  PosRestart :: "string list"

record 'd Unit =
  Machine :: int
  Detail :: 'd

text \<open>
  The struct \<open>App\<close>. \<open>Env\<close> is a Go map (a nil map reads as the empty one);
  \<open>hooks\<close> is the pointer \<open>*conf\<close>, \<open>None\<close> for \<open>nil\<close>.
\<close>

record 'd App =
  Env :: "string \<rightharpoonup> EnvVar"
  Framework :: string
  Logs :: "Applog list"
  Name :: string
  State :: string
  Units :: "'d Unit list"
  Teams :: "string list"
  hooks :: "conf option"

subsection \<open>Collaborators\<close>

text \<open>
  One reversible step of the pipeline that \<open>CreateApp\<close> runs. The step types
  (\<open>insertApp\<close>, \<open>createBucketIam\<close>, \<open>createRepository\<close>, \<open>provision\<close>) are
  declared in other files: a step is given by what its two directions do to the
  application and to the world outside it (\<open>'w\<close>: database, queue, units, buckets).
\<close>

record ('d, 'w) action =
  label :: string
  forward :: "'d App \<Rightarrow> 'w \<Rightarrow> app_error option \<times> 'd App \<times> 'w"
  backward :: "'d App \<Rightarrow> 'w \<Rightarrow> 'd App \<times> 'w"

text \<open>
  The functions of other packages that the code calls, as parameters:
  \<^item> \<open>FilterOutput\<close>: \<open>juju.FilterOutput\<close>;
  \<^item> \<open>dbUpdate\<close>: \<open>db.Session.Apps().Update(bson.M{"name": a.Name}, a)\<close>;
  \<^item> \<open>configGetString\<close>: \<open>config.GetString\<close>;
  \<^item> \<open>queueDial\<close>, \<open>queueSend\<close>: \<open>queue.Dial\<close>, and sending one message on
    the channel it returns and closing the channel;
  \<^item> \<open>writeEnvVars\<close>: the method \<open>writeEnvVars\<close> of the unit \<open>a.Unit()\<close>;
  \<^item> \<open>GetPath\<close>: \<open>repository.GetPath\<close>;
  \<^item> \<open>pathJoin\<close>: \<open>path.Join\<close> of two elements;
  \<^item> \<open>Command\<close>: the method \<open>Command\<close> of the unit \<open>a.Unit()\<close>, with what it
    wrote to the buffer passed as its standard output and standard error;
  \<^item> \<open>Unmarshal\<close>: \<open>goyaml.Unmarshal\<close> into a \<open>conf\<close>, which it may have
    changed also when it fails;
  \<^item> the four steps of \<open>CreateApp\<close>.
\<close>

record ('d, 'w) collaborators =
  FilterOutput :: "string \<Rightarrow> string"
  dbUpdate :: "'d App \<Rightarrow> 'w \<Rightarrow> app_error option \<times> 'w"
  configGetString :: "string \<Rightarrow> 'w \<Rightarrow> app_error + string"
  queueDial :: "string \<Rightarrow> 'w \<Rightarrow> app_error option \<times> 'w"
  queueSend :: "string \<Rightarrow> string list \<Rightarrow> 'w \<Rightarrow> 'w"
  writeEnvVars :: "'d Unit option \<Rightarrow> 'd App \<Rightarrow> 'w \<Rightarrow> 'w"
  GetPath :: "'w \<Rightarrow> app_error + string"
  pathJoin :: "string \<Rightarrow> string \<Rightarrow> string"
  Command :: "'d Unit option \<Rightarrow> 'd App \<Rightarrow> string \<Rightarrow> 'w \<Rightarrow> (app_error option \<times> string) \<times> 'w"
  Unmarshal :: "string \<Rightarrow> conf \<Rightarrow> app_error option \<times> conf"
  insertApp :: "('d, 'w) action"
  createBucketIam :: "('d, 'w) action"
  createRepository :: "('d, 'w) action"
  provision :: "('d, 'w) action"

subsection \<open>Logging\<close>

text \<open>\<open>strings.Split(message, "\n")\<close>: the pieces between the newlines, at least one.\<close>

fun splitLines :: "string \<Rightarrow> string list" where
  "splitLines [] = [[]]"
| "splitLines (c # cs) =
     (if c = CHR 0x0A then [] # splitLines cs
      else (c # hd (splitLines cs)) # tl (splitLines cs))"

text \<open>The loop of \<open>Log\<close>: one entry for every line that \<open>FilterOutput\<close> leaves non-empty.\<close>

primrec appendLogs ::
  "('d, 'w) collaborators \<Rightarrow> Applog list \<Rightarrow> string list \<Rightarrow> string \<Rightarrow> Applog list"
where
  "appendLogs X logs [] source = logs"
| "appendLogs X logs (msg # messages) source =
     appendLogs X
       (if length (FilterOutput X msg) > 0 then logs @ [\<lparr>Message = msg, Source = source\<rparr>]
        else logs)
       messages source"

definition Log ::
  "('d, 'w) collaborators \<Rightarrow> 'd App \<Rightarrow> string \<Rightarrow> string \<Rightarrow> 'w \<Rightarrow>
   app_error option \<times> 'd App \<times> 'w"
where
  "Log X a message source w =
     (let a' = a\<lparr>Logs := appendLogs X (Logs a) (splitLines message) source\<rparr>
      in case dbUpdate X a' w of (err, w') \<Rightarrow> (err, a', w'))"

subsection \<open>Creation\<close>

text \<open>
  \<open>isValid\<close> matches the name against \<open>^[a-z][a-z0-9]{0,62}$\<close>. The two character
  classes are byte ranges; \<open>matchUpTo cls n\<close> is the anchored tail
  \<open>cls{0,n}$\<close>: it consumes one character of the class at a time, at most \<open>n\<close> of
  them, and must reach the end of the text.
\<close>

definition lowerLetter :: "char \<Rightarrow> bool" where
  "lowerLetter c = (CHR ''a'' \<le> c \<and> c \<le> CHR ''z'')"

definition lowerLetterOrDigit :: "char \<Rightarrow> bool" where
  "lowerLetterOrDigit c =
     ((CHR ''a'' \<le> c \<and> c \<le> CHR ''z'') \<or> (CHR ''0'' \<le> c \<and> c \<le> CHR ''9''))"

fun matchUpTo :: "(char \<Rightarrow> bool) \<Rightarrow> nat \<Rightarrow> string \<Rightarrow> bool" where
  "matchUpTo cls n [] = True"
| "matchUpTo cls 0 (c # cs) = False"
| "matchUpTo cls (Suc n) (c # cs) = (if cls c then matchUpTo cls n cs else False)"

definition isValid :: "'d App \<Rightarrow> bool" where
  "isValid a =
     (case App.Name a of
        [] \<Rightarrow> False
      | c # cs \<Rightarrow> if lowerLetter c then matchUpTo lowerLetterOrDigit 62 cs else False)"

text \<open>
  The naming pattern in the words of the spec: the first character is a lowercase
  letter, the remaining ones are lowercase letters or digits, and there are at most 63
  characters.
\<close>

definition namingPattern :: "string \<Rightarrow> bool" where
  "namingPattern name =
     (name \<noteq> [] \<and> lowerLetter (hd name) \<and> list_all lowerLetterOrDigit (tl name) \<and>
      length name \<le> 63)"

text \<open>
  The events of a run of the pipeline, in their order: a step ran forward, a step ran
  backward. They are what "a step ran" and "before any step runs" are stated with.
\<close>

datatype event = Forward string | Backward string

text \<open>
  Modelled from the spec: the rollback of the pipeline executor, which package \<open>app\<close>
  calls as part of \<open>execute\<close> and does not define in these files. The executor "invokes \<open>backward\<close> on every
  previously-succeeded step in reverse order"; the steps come most recent first.
\<close>

fun rollback ::
  "('d, 'w) action list \<Rightarrow> 'd App \<Rightarrow> 'w \<Rightarrow> 'd App \<times> 'w \<times> event list"
where
  "rollback [] a w = (a, w, [])"
| "rollback (step # completed) a w =
     (case backward step a w of
        (a', w') \<Rightarrow>
          (case rollback completed a' w' of
             (a'', w'', events) \<Rightarrow> (a'', w'', Backward (label step) # events)))"

text \<open>
  Modelled from the spec: the loop of the pipeline executor, which package \<open>app\<close> calls
  as part of \<open>execute\<close> and does not define in these files. It "runs steps in order; on the first failure,
  invokes \<open>backward\<close> on every previously-succeeded step in reverse order, then returns
  the original forward error"; "on full success, returns nil and performs no rollback".
\<close>

fun runSteps ::
  "('d, 'w) action list \<Rightarrow> ('d, 'w) action list \<Rightarrow> 'd App \<Rightarrow> 'w \<Rightarrow>
   app_error option \<times> 'd App \<times> 'w \<times> event list"
where
  "runSteps completed [] a w = (None, a, w, [])"
| "runSteps completed (step # steps) a w =
     (case forward step a w of
        (Some err, a', w') \<Rightarrow>
          (case rollback completed a' w' of
             (a'', w'', events) \<Rightarrow> (Some err, a'', w'', Forward (label step) # events))
      | (None, a', w') \<Rightarrow>
          (case runSteps (step # completed) steps a' w' of
             (err, a'', w'', events) \<Rightarrow> (err, a'', w'', Forward (label step) # events)))"

text \<open>
  Modelled from the spec: \<open>execute\<close>, the pipeline executor, which package \<open>app\<close> calls
  and does not define in these files: \<open>Execute(context, steps)\<close> of the spec, started with no step
  completed.
\<close>

definition execute ::
  "'d App \<Rightarrow> ('d, 'w) action list \<Rightarrow> 'w \<Rightarrow> app_error option \<times> 'd App \<times> 'w \<times> event list"
where
  "execute a actions w = runSteps [] actions a w"

definition invalidNameMessage :: string where
  "invalidNameMessage =
     ''Invalid app name, your app should have at most 63 '' @
     ''characters, containing only lower case letters or numbers, '' @
     ''starting with a letter.''"

definition CreateApp ::
  "('d, 'w) collaborators \<Rightarrow> 'd App \<Rightarrow> 'w \<Rightarrow> app_error option \<times> 'd App \<times> 'w \<times> event list"
where
  "CreateApp X a w =
     (if \<not> isValid a then (Some (ValidationError invalidNameMessage), a, w, [])
      else execute a [insertApp X, createBucketIam X, createRepository X, provision X] w)"

subsection \<open>Units\<close>

text \<open>
  The loop of \<open>AddUnit\<close> stops at the first unit on the machine of \<open>u\<close>;
  \<open>machineIndex\<close> is its index, \<open>None\<close> when the loop runs to its end.
\<close>

primrec machineIndex :: "'d Unit list \<Rightarrow> int \<Rightarrow> nat option" where
  "machineIndex [] m = None"
| "machineIndex (unt # units) m =
     (if Machine unt = m then Some 0
      else (case machineIndex units m of None \<Rightarrow> None | Some i \<Rightarrow> Some (Suc i)))"

definition AddUnit :: "'d App \<Rightarrow> 'd Unit \<Rightarrow> 'd App" where
  "AddUnit a u =
     (case machineIndex (Units a) (Machine u) of
        Some i \<Rightarrow> a\<lparr>Units := (Units a)[i := u]\<rparr>
      | None \<Rightarrow> a\<lparr>Units := Units a @ [u]\<rparr>)"

text \<open>\<open>a.Unit()\<close>: the first unit, or (\<open>None\<close>) a unit that has nothing but its app.\<close>

definition Unit :: "'d App \<Rightarrow> 'd Unit option" where
  "Unit a = (case Units a of [] \<Rightarrow> None | unit # units \<Rightarrow> Some unit)"

subsection \<open>Teams\<close>

text \<open>
  \<open>sort.Search(n, f)\<close> of the Go library: binary search for the least index in
  \<open>[0, n)\<close> at which \<open>f\<close> holds, \<open>n\<close> when there is none. The midpoint
  \<open>int(uint(i+j) >> 1)\<close> is \<open>(i + j) div 2\<close>.
\<close>

function searchLoop :: "(nat \<Rightarrow> bool) \<Rightarrow> nat \<Rightarrow> nat \<Rightarrow> nat" where
  "searchLoop f i j =
     (if i < j then
        (let h = (i + j) div 2
         in if \<not> f h then searchLoop f (h + 1) j else searchLoop f i h)
      else i)"
  by pat_completeness auto
termination
  by (relation "measure (\<lambda>(f, i, j). j - i)") auto

declare searchLoop.simps [simp del]

definition Search :: "nat \<Rightarrow> (nat \<Rightarrow> bool) \<Rightarrow> nat" where
  "Search n f = searchLoop f 0 n"

text \<open>
  A team (\<open>*auth.Team\<close>) enters through its \<open>Name\<close> only, so it is given by its
  name. Go compares strings byte by byte, which is the lexicographic order on
  character lists.
\<close>

definition Find :: "'d App \<Rightarrow> string \<Rightarrow> nat \<times> bool" where
  "Find a team =
     (let pos = Search (length (Teams a)) (\<lambda>i. Teams a ! i \<ge> team)
      in (pos, pos < length (Teams a) \<and> Teams a ! pos = team))"

text \<open>
  The loop of \<open>Grant\<close>. The tuple assignment
  \<open>a.Teams[i+1], tmp = tmp, a.Teams[i]\<close> reads both right-hand sides before it
  writes: \<open>a.Teams[i+1]\<close> becomes the old \<open>tmp\<close>, and \<open>tmp\<close> the old
  \<open>a.Teams[i]\<close>.
\<close>

function shiftTeams :: "string list \<Rightarrow> string \<Rightarrow> nat \<Rightarrow> string list" where
  "shiftTeams teams tmp i =
     (if i < length teams - 1 then shiftTeams (teams[i + 1 := tmp]) (teams ! i) (i + 1)
      else teams)"
  by pat_completeness auto
termination
  by (relation "measure (\<lambda>(teams, tmp, i). length teams - i)") auto

declare shiftTeams.simps [simp del]

definition Grant :: "'d App \<Rightarrow> string \<Rightarrow> app_error option \<times> 'd App" where
  "Grant a team =
     (case Find a team of
        (pos, found) \<Rightarrow>
          if found then (Some (ErrorString ''This team already has access to this app''), a)
          else (let teams = Teams a @ [[]];
                    tmp = teams ! pos;
                    teams' = shiftTeams teams tmp pos
                in (None, a\<lparr>Teams := teams'[pos := team]\<rparr>)))"

text \<open>
  The builtin \<open>copy(dst, src)\<close> on slices of one array: the first
  \<open>min(len(dst), len(src))\<close> elements of \<open>src\<close>, as they were before the call,
  overwrite the front of \<open>dst\<close>. In \<open>Revoke\<close> the destination is
  \<open>a.Teams[index:]\<close>, and the slice then loses its last element.
\<close>

definition copy :: "'a list \<Rightarrow> 'a list \<Rightarrow> 'a list" where
  "copy dst src =
     take (min (length dst) (length src)) src @ drop (min (length dst) (length src)) dst"

definition Revoke :: "'d App \<Rightarrow> string \<Rightarrow> app_error option \<times> 'd App" where
  "Revoke a team =
     (case Find a team of
        (index, found) \<Rightarrow>
          if \<not> found
          then (Some (ErrorString ''This team does not have access to this app''), a)
          else (let teams = take index (Teams a) @
                              copy (drop index (Teams a)) (drop (index + 1) (Teams a))
                in (None, a\<lparr>Teams := take (length teams - 1) teams\<rparr>)))"

subsection \<open>Environment variables\<close>

definition getEnv :: "'d App \<Rightarrow> string \<Rightarrow> app_error + EnvVar" where
  "getEnv a name =
     (case Env a name of
        None \<Rightarrow> Inl (ErrorString ''Environment variable not declared for this app.'')
      | Some env \<Rightarrow> Inr env)"

text \<open>\<open>setEnv\<close> drops the error that \<open>Log\<close> returns.\<close>

definition setEnv ::
  "('d, 'w) collaborators \<Rightarrow> 'd App \<Rightarrow> EnvVar \<Rightarrow> 'w \<Rightarrow> 'd App \<times> 'w"
where
  "setEnv X a env w =
     (case Log X (a\<lparr>Env := (Env a)(EnvVar.Name env \<mapsto> env)\<rparr>)
             (''setting env '' @ EnvVar.Name env @ '' with value '' @ Value env) ''tsuru'' w of
        (err, a', w') \<Rightarrow> (a', w'))"

definition RegenerateApprc :: string where
  "RegenerateApprc = ''regenerate-apprc''"

definition enqueueApprcRegeneration ::
  "('d, 'w) collaborators \<Rightarrow> 'd App \<Rightarrow> 'w \<Rightarrow> app_error option \<times> 'w"
where
  "enqueueApprcRegeneration X a w =
     (case configGetString X ''queue-server'' w of
        Inl err \<Rightarrow> (Some err, w)
      | Inr addr \<Rightarrow>
          (case queueDial X addr w of
             (Some err, w') \<Rightarrow> (Some err, w')
           | (None, w') \<Rightarrow> (None, queueSend X RegenerateApprc [App.Name a] w')))"

definition SerializeEnvVars :: "('d, 'w) collaborators \<Rightarrow> 'd App \<Rightarrow> 'w \<Rightarrow> 'w" where
  "SerializeEnvVars X a w = writeEnvVars X (Unit a) a w"

text \<open>The loop of \<open>SetEnvsToApp\<close> over the variables.\<close>

primrec setEnvs ::
  "('d, 'w) collaborators \<Rightarrow> 'd App \<Rightarrow> EnvVar list \<Rightarrow> bool \<Rightarrow> 'w \<Rightarrow> 'd App \<times> 'w"
where
  "setEnvs X app [] publicOnly w = (app, w)"
| "setEnvs X app (env # envs) publicOnly w =
     (let set = (if publicOnly then
                   (case getEnv app (EnvVar.Name env) of
                      Inr e \<Rightarrow> if \<not> Public e then False else True
                    | Inl err \<Rightarrow> True)
                 else True)
      in if set
         then (case setEnv X app env w of (app', w') \<Rightarrow> setEnvs X app' envs publicOnly w')
         else setEnvs X app envs publicOnly w)"

definition SetEnvsToApp ::
  "('d, 'w) collaborators \<Rightarrow> 'd App \<Rightarrow> EnvVar list \<Rightarrow> bool \<Rightarrow> bool \<Rightarrow> 'w \<Rightarrow>
   app_error option \<times> 'd App \<times> 'w"
where
  "SetEnvsToApp X app envs publicOnly useQueue w =
     (if length envs > 0 then
        (case setEnvs X app envs publicOnly w of
           (app', w') \<Rightarrow>
             (case dbUpdate X app' w' of
                (Some err, w'') \<Rightarrow> (Some err, app', w'')
              | (None, w'') \<Rightarrow>
                  if useQueue then
                    (case enqueueApprcRegeneration X app' w'' of
                       (err, w''') \<Rightarrow> (err, app', w'''))
                  else (None, app', SerializeEnvVars X app' w'')))
      else (None, app, w))"

subsection \<open>Restart hooks\<close>

text \<open>
  \<open>loadHooks\<close>. \<open>a.hooks = new(conf)\<close> comes before anything can fail, so every
  later call finds hooks loaded. The errors that \<open>Log\<close> returns are dropped.
\<close>

definition loadHooks ::
  "('d, 'w) collaborators \<Rightarrow> 'd App \<Rightarrow> 'w \<Rightarrow> app_error option \<times> 'd App \<times> 'w"
where
  "loadHooks X a w =
     (case hooks a of
        Some loaded \<Rightarrow> (None, a, w)
      | None \<Rightarrow>
          (let a0 = a\<lparr>hooks := Some \<lparr>PreRestart = [], PosRestart = []\<rparr>\<rparr>
           in case GetPath X w of
                Inl err \<Rightarrow>
                  (case Log X a0 (''Got error while getting repository path: '' @ Error err)
                          ''tsuru'' w of
                     (logErr, a1, w1) \<Rightarrow> (Some err, a1, w1))
              | Inr uRepo \<Rightarrow>
                  (case Command X (Unit a0) a0 (''cat '' @ pathJoin X uRepo ''app.conf'') w of
                     ((Some err, buf), w1) \<Rightarrow>
                       (case Log X a0
                               (''Got error while executing command: '' @ Error err @
                                ''... Skipping hooks execution'') ''tsuru'' w1 of
                          (logErr, a2, w2) \<Rightarrow> (None, a2, w2))
                   | ((None, buf), w1) \<Rightarrow>
                       (case Unmarshal X (FilterOutput X buf)
                               \<lparr>PreRestart = [], PosRestart = []\<rparr> of
                          (Some err, c) \<Rightarrow>
                            (case Log X (a0\<lparr>hooks := Some c\<rparr>)
                                    (''Got error while parsing yaml: '' @ Error err)
                                    ''tsuru'' w1 of
                               (logErr, a3, w3) \<Rightarrow> (Some err, a3, w3))
                        | (None, c) \<Rightarrow> (None, a0\<lparr>hooks := Some c\<rparr>, w1)))))"

section \<open>Notions of the specification\<close>

text \<open>A router in which every route list is "deduplicated".\<close>

definition duplicateFree :: "'h fakeRouter \<Rightarrow> bool" where
  "duplicateFree r = (\<forall>name. distinct (routesOf r name))"

text \<open>
  A variable name that "already exists in the app's environment marked non-public".
\<close>

definition isPrivate :: "(string \<rightharpoonup> EnvVar) \<Rightarrow> string \<Rightarrow> bool" where
  "isPrivate env name = (case env name of None \<Rightarrow> False | Some e \<Rightarrow> \<not> Public e)"

text \<open>
  "Skip it if \<open>publicOnly\<close> is set and an existing variable of the same name is marked
  non-public; otherwise upsert": what the spec asks for one variable.
\<close>

definition upsertUnlessPrivate ::
  "bool \<Rightarrow> (string \<rightharpoonup> EnvVar) \<Rightarrow> EnvVar \<Rightarrow> (string \<rightharpoonup> EnvVar)"
where
  "upsertUnlessPrivate publicOnly env v =
     (if publicOnly \<and> isPrivate env (EnvVar.Name v) then env else env(EnvVar.Name v \<mapsto> v))"

text \<open>The environment of the application once \<open>SetEnvsToApp\<close> has returned.\<close>

definition envAfterSet ::
  "('d, 'w) collaborators \<Rightarrow> 'd App \<Rightarrow> EnvVar list \<Rightarrow> bool \<Rightarrow> bool \<Rightarrow> 'w \<Rightarrow>
   (string \<rightharpoonup> EnvVar)"
where
  "envAfterSet X app envs publicOnly useQueue w =
     Env (fst (snd (SetEnvsToApp X app envs publicOnly useQueue w)))"

text \<open>The events of a run of \<open>CreateApp\<close>.\<close>

definition eventsOf :: "app_error option \<times> 'd App \<times> 'w \<times> event list \<Rightarrow> event list" where
  "eventsOf result = snd (snd (snd result))"

section \<open>Example states\<close>

text \<open>
  Routers built with the router's own operations, starting from
  \<open>newFakeRouter\<close> over an empty name-resolution record.
\<close>

definition flaggedRouter :: "unit fakeRouter" where
  "flaggedRouter =
     FailForIp
       (snd (AddRoutes (snd (AddBackend (newFakeRouter Map.empty) ''app'')) ''app''
          [''http://10.0.0.1:80'']))
       ''http://10.0.0.3:80''"

definition servingRouter :: "unit fakeRouter" where
  "servingRouter =
     snd (AddRoutes (snd (AddBackend (newFakeRouter Map.empty) ''app'')) ''app''
       [''http://10.0.0.1:80'', ''http://10.0.0.2:80''])"

text \<open>
  Two backends whose entries in the name-resolution record have been exchanged, as
  after a swap, and a record entry whose backend was never registered.
\<close>

definition swappedRouter :: "unit fakeRouter" where
  "swappedRouter =
     snd (Store (snd (Store (snd (AddBackend (snd (AddBackend (newFakeRouter Map.empty)
       ''blue'')) ''green'')) ''blue'' ''green'' ''fake'')) ''green'' ''blue'' ''fake'')"

definition staleRouter :: "unit fakeRouter" where
  "staleRouter = newFakeRouter [''ghost'' \<mapsto> ''ghost'']"

definition aliasedRouter :: "unit fakeRouter" where
  "aliasedRouter =
     snd (Store (snd (SetCName (\<lambda>cname domain. True)
            (snd (AddBackend (newFakeRouter Map.empty) ''app'')) ''www.example.com'' ''app''))
          ''later'' ''later'' ''fake'')"

definition checkedRouter :: "string fakeRouter" where
  "checkedRouter =
     snd (SetHealthcheck
       (snd (SetCName (\<lambda>cname domain. True)
          (snd (AddRoutes (snd (AddBackend (newFakeRouter Map.empty) ''app'')) ''app''
             [''http://10.0.0.1:80'']))
          ''www.example.com'' ''app''))
       ''app'' ''/healthz'')"

text \<open>
  Collaborators that never fail, over a world that is the journal of what was done to
  it: a step writes its label when it runs forward and erases it when it runs backward.
\<close>

definition journalStep :: "string \<Rightarrow> (string, string list) action" where
  "journalStep l =
     \<lparr>label = l,
      forward = (\<lambda>a w. (None, a, w @ [l])),
      backward = (\<lambda>a w. (a, removeAll l w))\<rparr>"

definition calm :: "(string, string list) collaborators" where
  "calm =
     \<lparr>FilterOutput = (\<lambda>output. output),
      dbUpdate = (\<lambda>a w. (None, w)),
      configGetString = (\<lambda>key w. Inr ''localhost:11300''),
      queueDial = (\<lambda>addr w. (None, w)),
      queueSend = (\<lambda>act args w. w @ [act]),
      writeEnvVars = (\<lambda>u a w. w),
      GetPath = (\<lambda>w. Inr ''/home/application/current''),
      pathJoin = (\<lambda>dir file. dir @ ''/'' @ file),
      Command = (\<lambda>u a cmd w. ((None, ''pre-restart: [testdata/pre.sh]''), w)),
      Unmarshal = (\<lambda>bytes c. (None, c\<lparr>PreRestart := [''testdata/pre.sh'']\<rparr>)),
      insertApp = journalStep ''insertApp'',
      createBucketIam = journalStep ''createBucketIam'',
      createRepository = journalStep ''createRepository'',
      provision = journalStep ''provision''\<rparr>"

definition blog :: "string App" where
  "blog =
     \<lparr>Env = Map.empty, Framework = ''python'', Logs = [], App.Name = ''blog'',
      State = ''started'',
      Units = [\<lparr>Machine = 1, Detail = ''10.10.10.1''\<rparr>,
               \<lparr>Machine = 2, Detail = ''10.10.10.2''\<rparr>],
      Teams = [''a'', ''c'', ''d''], hooks = None\<rparr>"

text \<open>
  The three ways in which loading the hooks can fail: the repository path is not
  configured, the command that reads \<open>app.conf\<close> fails, the file is not YAML.
\<close>

definition noRepository :: "(string, string list) collaborators" where
  "noRepository =
     calm\<lparr>GetPath := (\<lambda>w. Inl (ErrorString ''key git:unit-repo not found''))\<rparr>"

definition noConfFile :: "(string, string list) collaborators" where
  "noConfFile =
     calm\<lparr>Command := (\<lambda>u a cmd w.
        ((Some (ErrorString ''exit status 1''), ''cat: app.conf: No such file or directory''),
         w))\<rparr>"

definition badYaml :: "(string, string list) collaborators" where
  "badYaml =
     calm\<lparr>Unmarshal := (\<lambda>bytes c. (Some (ErrorString ''YAML error: line 1''), c))\<rparr>"

text \<open>The two variables of the example in the spec.\<close>

definition privateX :: EnvVar where
  "privateX = \<lparr>EnvVar.Name = ''X'', Value = ''1'', Public = False, InstanceName = []\<rparr>"

definition publicX :: EnvVar where
  "publicX = \<lparr>EnvVar.Name = ''X'', Value = ''2'', Public = True, InstanceName = []\<rparr>"

section \<open>Properties of the fake router\<close>

subsection \<open>The loops\<close>

lemma anyFailing_iff: "anyFailing r addresses \<longleftrightarrow> (\<exists>a \<in> set addresses. failing r a)"
  by (induction addresses) auto

lemma hasAddress_iff: "hasAddress routes address \<longleftrightarrow> address \<in> set routes"
  by (induction routes) auto

lemma cutAddress_remove1: "cutAddress routes addr = remove1 addr routes"
  by (induction routes) auto

lemma failing_FailForIp: "failing (FailForIp r ip) ip"
  by (simp add: failing_def FailForIp_def)

lemma set_addAddresses: "set (addAddresses routes addresses) = set routes \<union> set addresses"
  by (induction addresses arbitrary: routes) (auto simp: hasAddress_iff)

lemma count_addAddresses_present:
  "addr \<in> set routes \<Longrightarrow>
   count_list (addAddresses routes addresses) addr = count_list routes addr"
  by (induction addresses arbitrary: routes) (auto simp: hasAddress_iff)

lemma distinct_addAddresses: "distinct routes \<Longrightarrow> distinct (addAddresses routes addresses)"
  by (induction addresses arbitrary: routes) (auto simp: hasAddress_iff)

lemma addAddresses_skip_present:
  "addr \<in> set routes \<Longrightarrow>
   addAddresses routes addresses = addAddresses routes (removeAll addr addresses)"
  by (induction addresses arbitrary: routes) (auto simp: hasAddress_iff)

lemma cutAddresses_skip_absent:
  "addr \<notin> set routes \<Longrightarrow>
   cutAddresses routes addresses = cutAddresses routes (removeAll addr addresses)"
proof (induction addresses arbitrary: routes)
  case Nil
  then show ?case by simp
next
  case (Cons a addresses)
  show ?case
  proof (cases "a = addr")
    case True
    with Cons show ?thesis
      by (simp add: cutAddress_remove1 remove1_idem)
  next
    case False
    have "addr \<notin> set (remove1 a routes)"
      using Cons.prems by (metis notin_set_remove1)
    with False Cons.IH [of "remove1 a routes"] show ?thesis
      by (simp add: cutAddress_remove1)
  qed
qed

lemma anyFailing_removeAll:
  "\<not> anyFailing r addresses \<Longrightarrow> \<not> anyFailing r (removeAll addr addresses)"
  by (simp add: anyFailing_iff)

lemma count_list_distinct: "distinct xs \<Longrightarrow> x \<in> set xs \<Longrightarrow> count_list xs x = 1"
  by (induction xs) (auto simp: count_list_0_iff)

lemma keep_backend:
  "backends r b = Some routes \<Longrightarrow> r\<lparr>backends := (backends r)(b \<mapsto> routes)\<rparr> = r"
  by (simp add: fun_upd_idem)

lemma dropCNamesOf_purged: "dropCNamesOf cs b cname \<noteq> Some b"
  by (simp add: dropCNamesOf_def split: option.splits)

lemma dropCNamesOf_other: "cs cname \<noteq> Some b \<Longrightarrow> dropCNamesOf cs b cname = cs cname"
  by (simp add: dropCNamesOf_def split: option.splits)

subsection \<open>Route lists stay free of duplicates\<close>

lemma distinct_cutAddresses: "distinct routes \<Longrightarrow> distinct (cutAddresses routes addresses)"
  by (induction addresses arbitrary: routes) (auto simp: cutAddress_remove1)

lemma indexOf_Some: "indexOf routes address = Some i \<Longrightarrow> i < length routes"
  by (induction routes arbitrary: i) (auto split: if_splits option.splits)

lemma distinct_swap_last:
  assumes "distinct routes" and "i < length routes"
  shows "distinct (butlast (routes[i := last routes]))"
proof (cases "Suc i = length routes")
  case True
  then have "last routes = routes ! i"
    by (metis diff_Suc_1 last_conv_nth length_0_conv nat.simps(3))
  then have "routes[i := last routes] = routes"
    by simp
  with assms(1) show ?thesis
    by (simp add: distinct_butlast)
next
  case False
  with assms(2) have i: "i < length (butlast routes)" by simp
  from assms have ne: "routes \<noteq> []" by auto
  then have "distinct (butlast routes @ [last routes])"
    using assms(1) by simp
  then have "distinct (butlast routes)" and "last routes \<notin> set (butlast routes)"
    by simp_all
  then have "distinct ((butlast routes)[i := last routes])"
    by (simp add: distinct_list_update)
  moreover from False assms(2) have "i \<noteq> length routes - 1"
    by simp
  ultimately show ?thesis
    by (simp add: butlast_list_update)
qed

lemma duplicateFree_operations:
  "duplicateFree (newFakeRouter db)"
  "duplicateFree r \<Longrightarrow> duplicateFree (snd (AddBackend r name))"
  "duplicateFree r \<Longrightarrow> duplicateFree (snd (RemoveBackend r name))"
  "duplicateFree r \<Longrightarrow> duplicateFree (snd (AddRoutes r name addresses))"
  "duplicateFree r \<Longrightarrow> duplicateFree (snd (RemoveRoutes r name addresses))"
  "duplicateFree r \<Longrightarrow> duplicateFree (snd (AddRoute r name address))"
  "duplicateFree r \<Longrightarrow> duplicateFree (snd (RemoveRoute r name address))"
proof -
  show "duplicateFree (newFakeRouter db)"
    by (simp add: duplicateFree_def routesOf_def newFakeRouter_def)
  show "duplicateFree r \<Longrightarrow> duplicateFree (snd (AddBackend r name))"
    by (simp add: duplicateFree_def routesOf_def AddBackend_def Store_def)
  show "duplicateFree r \<Longrightarrow> duplicateFree (snd (RemoveBackend r name))"
    by (auto simp: duplicateFree_def routesOf_def RemoveBackend_def Remove_def
        split: sum.splits option.splits)
  show "duplicateFree r \<Longrightarrow> duplicateFree (snd (AddRoutes r name addresses))"
    by (auto simp: duplicateFree_def routesOf_def AddRoutes_def distinct_addAddresses
        split: sum.splits option.splits)
  show "duplicateFree r \<Longrightarrow> duplicateFree (snd (RemoveRoutes r name addresses))"
    by (auto simp: duplicateFree_def routesOf_def RemoveRoutes_def distinct_cutAddresses
        split: sum.splits option.splits)
  show "duplicateFree r \<Longrightarrow> duplicateFree (snd (AddRoute r name address))"
    by (auto simp: duplicateFree_def routesOf_def AddRoute_def HasRoute_def HasBackend_def
        hasAddress_iff split: sum.splits option.splits)
  show "duplicateFree r \<Longrightarrow> duplicateFree (snd (RemoveRoute r name address))"
    by (auto simp: duplicateFree_def RemoveRoute_def Let_def routesOf_def
        dest!: indexOf_Some intro!: distinct_swap_last split: sum.splits option.splits)
qed

subsection \<open>The example routers\<close>

lemma flaggedRouter_retrieve: "Retrieve flaggedRouter ''app'' = Inr ''app''"
  by (simp add: flaggedRouter_def FailForIp_def AddRoutes_def AddBackend_def newFakeRouter_def
        Retrieve_def Store_def HasBackend_def failing_def routesOf_def)

lemma flaggedRouter_routes: "backends flaggedRouter ''app'' = Some [''http://10.0.0.1:80'']"
  by (simp add: flaggedRouter_def FailForIp_def AddRoutes_def AddBackend_def newFakeRouter_def
        Retrieve_def Store_def HasBackend_def failing_def routesOf_def)

lemma flaggedRouter_flag: "failing flaggedRouter ''http://10.0.0.3:80''"
  by (simp add: flaggedRouter_def failing_FailForIp)

lemma servingRouter_eq:
  "servingRouter =
     \<lparr>backends = [''app'' \<mapsto> [''http://10.0.0.1:80'', ''http://10.0.0.2:80'']],
      cnames = Map.empty, failuresByIp = Map.empty, healthcheck = Map.empty,
      routers = [''app'' \<mapsto> ''app'']\<rparr>"
  by (simp add: servingRouter_def AddRoutes_def AddBackend_def newFakeRouter_def
      Retrieve_def Store_def HasBackend_def failing_def routesOf_def)

lemma checkedRouter_eq:
  "checkedRouter =
     \<lparr>backends = [''app'' \<mapsto> [''http://10.0.0.1:80'']],
      cnames = [''www.example.com'' \<mapsto> ''app''],
      failuresByIp = Map.empty,
      healthcheck = [''app'' \<mapsto> ''/healthz''],
      routers = [''app'' \<mapsto> ''app'']\<rparr>"
  by (simp add: checkedRouter_def SetHealthcheck_def SetCName_def AddRoutes_def AddBackend_def
      newFakeRouter_def Retrieve_def Store_def HasBackend_def failing_def routesOf_def)

subsection \<open>Rejected batches\<close>

text \<open>
  C2. For a registered backend, a batch in which one address is flagged as failing is
  rejected as a whole by \<open>AddRoutes\<close> and by \<open>RemoveRoutes\<close>: the call returns
  \<open>ErrForcedFailure\<close> and the router, hence the route set of the backend, is as before.
\<close>

theorem batch_all_or_nothing:
  assumes "Retrieve r name = Inr b" and "HasBackend r b"
    and "addr \<in> set addresses" and "failing r addr"
  shows "AddRoutes r name addresses = (Some ErrForcedFailure, r) \<and>
         RemoveRoutes r name addresses = (Some ErrForcedFailure, r)"
proof -
  from assms(3,4) have "anyFailing r addresses"
    by (auto simp: anyFailing_iff)
  with assms(1,2) show ?thesis
    by (simp add: AddRoutes_def RemoveRoutes_def)
qed

theorem batch_all_or_nothing_witness:
  "AddRoutes flaggedRouter ''app'' [''http://10.0.0.2:80'', ''http://10.0.0.3:80'']
     = (Some ErrForcedFailure, flaggedRouter) \<and>
   RemoveRoutes flaggedRouter ''app'' [''http://10.0.0.1:80'', ''http://10.0.0.3:80'']
     = (Some ErrForcedFailure, flaggedRouter) \<and>
   routesOf flaggedRouter ''app'' = [''http://10.0.0.1:80'']"
proof -
  have reg: "HasBackend flaggedRouter ''app''"
    by (simp add: HasBackend_def flaggedRouter_routes)
  show ?thesis
    using batch_all_or_nothing [OF flaggedRouter_retrieve reg _ flaggedRouter_flag,
        of "[''http://10.0.0.2:80'', ''http://10.0.0.3:80'']"]
      batch_all_or_nothing [OF flaggedRouter_retrieve reg _ flaggedRouter_flag,
        of "[''http://10.0.0.1:80'', ''http://10.0.0.3:80'']"]
    by (simp add: routesOf_def flaggedRouter_routes)
qed

subsection \<open>Removing a backend\<close>

text \<open>
  C3. \<open>RemoveBackend name\<close> fails with \<open>ErrBackendSwapped\<close> whenever the
  name-resolution record resolves \<open>name\<close> to another backend, and with
  \<open>ErrBackendNotFound\<close> when the name resolves to itself and that backend is not
  registered. In both cases the router and the record are as before.
\<close>

theorem RemoveBackend_rejections:
  "(Retrieve r name = Inr b \<and> b \<noteq> name \<longrightarrow>
      RemoveBackend r name = (Some ErrBackendSwapped, r)) \<and>
   (Retrieve r name = Inr name \<and> \<not> HasBackend r name \<longrightarrow>
      RemoveBackend r name = (Some ErrBackendNotFound, r))"
  by (simp add: RemoveBackend_def)

theorem RemoveBackend_rejections_witness:
  "Retrieve swappedRouter ''blue'' = Inr ''green'' \<and>
   HasBackend swappedRouter ''blue'' \<and> HasBackend swappedRouter ''green'' \<and>
   RemoveBackend swappedRouter ''blue'' = (Some ErrBackendSwapped, swappedRouter) \<and>
   Retrieve staleRouter ''ghost'' = Inr ''ghost'' \<and>
   RemoveBackend staleRouter ''ghost'' = (Some ErrBackendNotFound, staleRouter)"
proof -
  have a: "Retrieve swappedRouter ''blue'' = Inr ''green''"
    by (simp add: swappedRouter_def Store_def AddBackend_def HasBackend_def
        newFakeRouter_def Retrieve_def)
  have b: "HasBackend swappedRouter ''blue'' \<and> HasBackend swappedRouter ''green''"
    by (simp add: swappedRouter_def Store_def AddBackend_def HasBackend_def
        newFakeRouter_def)
  have c: "Retrieve staleRouter ''ghost'' = Inr ''ghost''"
    by (simp add: staleRouter_def newFakeRouter_def Retrieve_def)
  have d: "\<not> HasBackend staleRouter ''ghost''"
    by (simp add: staleRouter_def newFakeRouter_def HasBackend_def)
  show ?thesis
    using RemoveBackend_rejections [of swappedRouter "''blue''" "''green''"]
      RemoveBackend_rejections [of staleRouter "''ghost''" "''ghost''"] a b c d
    by simp
qed

text \<open>
  C4, as the code has it. A successful \<open>RemoveBackend name\<close> leaves no route set for
  the backend and no alias that points at it; the other aliases and route sets stay.
  The health records are not touched: the one stored for the backend is still there.
\<close>

theorem RemoveBackend_purges:
  assumes "RemoveBackend r name = (None, r')"
  shows "backends r' name = None \<and> \<not> HasBackend r' name \<and>
         (\<forall>cname. cnames r' cname \<noteq> Some name) \<and>
         (\<forall>cname. cnames r cname \<noteq> Some name \<longrightarrow> cnames r' cname = cnames r cname) \<and>
         (\<forall>other. other \<noteq> name \<longrightarrow> backends r' other = backends r other) \<and>
         healthcheck r' = healthcheck r"
proof -
  from assms have res: "Retrieve r name = Inr name" and reg: "HasBackend r name"
    by (auto simp: RemoveBackend_def Remove_def split: sum.splits if_splits option.splits)
  from res have "routers r name = Some name"
    by (simp add: Retrieve_def split: option.splits)
  with assms res reg have
    "r' = r\<lparr>cnames := dropCNamesOf (cnames r) name,
            backends := (backends r)(name := None),
            routers := (routers r)(name := None)\<rparr>"
    by (simp add: RemoveBackend_def Remove_def)
  then show ?thesis
    by (simp add: HasBackend_def dropCNamesOf_purged dropCNamesOf_other)
qed

theorem RemoveBackend_purges_witness:
  "RemoveBackend checkedRouter ''app'' =
     (None, \<lparr>backends = Map.empty, cnames = Map.empty, failuresByIp = Map.empty,
             healthcheck = [''app'' \<mapsto> ''/healthz''], routers = Map.empty\<rparr>) \<and>
   cnames checkedRouter ''www.example.com'' = Some ''app'' \<and>
   cnames (snd (RemoveBackend checkedRouter ''app'')) ''www.example.com'' = None \<and>
   backends (snd (RemoveBackend checkedRouter ''app'')) ''app'' = None \<and>
   healthcheck (snd (RemoveBackend checkedRouter ''app'')) = healthcheck checkedRouter"
proof -
  have run: "RemoveBackend checkedRouter ''app'' =
     (None, \<lparr>backends = Map.empty, cnames = Map.empty, failuresByIp = Map.empty,
             healthcheck = [''app'' \<mapsto> ''/healthz''], routers = Map.empty\<rparr>)"
    by (auto simp: checkedRouter_eq RemoveBackend_def Retrieve_def HasBackend_def Remove_def
        dropCNamesOf_def)
  have "cnames checkedRouter ''www.example.com'' = Some ''app''"
    by (simp add: checkedRouter_eq)
  with RemoveBackend_purges [OF run] run show ?thesis
    by (simp add: checkedRouter_eq)
qed

text \<open>
  C4, as the claim has it, fails: after \<open>SetHealthcheck\<close> for the backend \<open>app\<close>, a
  successful \<open>RemoveBackend\<close> leaves the health record of \<open>app\<close> in the router.
\<close>

theorem RemoveBackend_keeps_healthcheck_counterexample:
  "fst (RemoveBackend checkedRouter ''app'') = None \<and>
   GetHealthcheck checkedRouter ''app'' = Some ''/healthz'' \<and>
   GetHealthcheck (snd (RemoveBackend checkedRouter ''app'')) ''app'' = Some ''/healthz''"
  by (simp add: checkedRouter_eq RemoveBackend_def Retrieve_def HasBackend_def Remove_def
      GetHealthcheck_def)

subsection \<open>Adding a route twice, removing a route that is not there\<close>

text \<open>
  C7, as the code has it. For a registered backend:
  \<^item> when no address of the batch is flagged as failing, an address that is already a
    route adds nothing: \<open>AddRoutes\<close> does what it does for the batch without it, and
    for that address alone it changes nothing and returns \<open>nil\<close>;
  \<^item> whatever the batch, an address that is a route occurs afterwards as often as
    before: exactly once in a route set, which is a route list without duplicates;
  \<^item> when no address of the batch is flagged as failing, an address that is not a
    route removes nothing: \<open>RemoveRoutes\<close> does what it does for the batch without it,
    and for that address alone it changes nothing and returns \<open>nil\<close>.
\<close>

theorem routes_duplicate_add_absent_remove:
  assumes "Retrieve r name = Inr b" and "HasBackend r b"
  shows "(addr \<in> set (routesOf r b) \<and> \<not> anyFailing r addresses \<longrightarrow>
            AddRoutes r name addresses = AddRoutes r name (removeAll addr addresses)) \<and>
         (addr \<in> set (routesOf r b) \<and> \<not> failing r addr \<longrightarrow>
            AddRoutes r name [addr] = (None, r)) \<and>
         (addr \<in> set (routesOf r b) \<longrightarrow>
            count_list (routesOf (snd (AddRoutes r name addresses)) b) addr
              = count_list (routesOf r b) addr) \<and>
         (addr \<in> set (routesOf r b) \<and> distinct (routesOf r b) \<longrightarrow>
            count_list (routesOf (snd (AddRoutes r name addresses)) b) addr = 1) \<and>
         (addr \<notin> set (routesOf r b) \<and> \<not> anyFailing r addresses \<longrightarrow>
            RemoveRoutes r name addresses = RemoveRoutes r name (removeAll addr addresses)) \<and>
         (addr \<notin> set (routesOf r b) \<and> \<not> failing r addr \<longrightarrow>
            RemoveRoutes r name [addr] = (None, r))"
proof -
  from assms(2) obtain routes where routes: "backends r b = Some routes"
    by (auto simp: HasBackend_def split: option.splits)
  then have ro: "routesOf r b = routes"
    by (simp add: routesOf_def)
  have add: "\<not> anyFailing r as \<Longrightarrow>
      AddRoutes r name as =
        (None, r\<lparr>backends := (backends r)(b \<mapsto> addAddresses routes as)\<rparr>)" for as
    using assms ro by (simp add: AddRoutes_def)
  have rem: "\<not> anyFailing r as \<Longrightarrow>
      RemoveRoutes r name as =
        (None, r\<lparr>backends := (backends r)(b \<mapsto> cutAddresses routes as)\<rparr>)" for as
    using assms ro by (simp add: RemoveRoutes_def)
  have c1: "addr \<in> set (routesOf r b) \<and> \<not> anyFailing r addresses \<longrightarrow>
            AddRoutes r name addresses = AddRoutes r name (removeAll addr addresses)"
    using addAddresses_skip_present [of addr routes addresses]
    by (simp add: add anyFailing_removeAll ro)
  have c2: "addr \<in> set (routesOf r b) \<and> \<not> failing r addr \<longrightarrow>
            AddRoutes r name [addr] = (None, r)"
    using routes by (simp add: add ro hasAddress_iff keep_backend)
  have after: "routesOf (snd (AddRoutes r name addresses)) b =
               (if anyFailing r addresses then routes else addAddresses routes addresses)"
    using assms routes by (simp add: AddRoutes_def routesOf_def)
  have c3: "addr \<in> set (routesOf r b) \<and> distinct (routesOf r b) \<longrightarrow>
            count_list (routesOf (snd (AddRoutes r name addresses)) b) addr = 1"
    by (simp add: after ro distinct_addAddresses count_list_distinct set_addAddresses)
  have c3': "addr \<in> set (routesOf r b) \<longrightarrow>
            count_list (routesOf (snd (AddRoutes r name addresses)) b) addr
              = count_list (routesOf r b) addr"
    by (simp add: after ro count_addAddresses_present)
  have c4: "addr \<notin> set (routesOf r b) \<and> \<not> anyFailing r addresses \<longrightarrow>
            RemoveRoutes r name addresses = RemoveRoutes r name (removeAll addr addresses)"
    using cutAddresses_skip_absent [of addr routes addresses]
    by (simp add: rem anyFailing_removeAll ro)
  have c5: "addr \<notin> set (routesOf r b) \<and> \<not> failing r addr \<longrightarrow>
            RemoveRoutes r name [addr] = (None, r)"
    using routes by (simp add: rem ro cutAddress_remove1 remove1_idem keep_backend)
  from c1 c2 c3' c3 c4 c5 show ?thesis by blast
qed

theorem routes_duplicate_add_absent_remove_witness:
  "routesOf servingRouter ''app'' = [''http://10.0.0.1:80'', ''http://10.0.0.2:80''] \<and>
   AddRoutes servingRouter ''app'' [''http://10.0.0.2:80''] = (None, servingRouter) \<and>
   AddRoutes servingRouter ''app'' [''http://10.0.0.2:80'', ''http://10.0.0.7:80'']
     = AddRoutes servingRouter ''app'' [''http://10.0.0.7:80''] \<and>
   count_list
     (routesOf (snd (AddRoutes servingRouter ''app''
        [''http://10.0.0.2:80'', ''http://10.0.0.7:80''])) ''app'')
     ''http://10.0.0.2:80'' = 1 \<and>
   RemoveRoutes servingRouter ''app'' [''http://10.0.0.9:80''] = (None, servingRouter) \<and>
   RemoveRoutes servingRouter ''app'' [''http://10.0.0.9:80'', ''http://10.0.0.1:80'']
     = RemoveRoutes servingRouter ''app'' [''http://10.0.0.1:80'']"
proof -
  have res: "Retrieve servingRouter ''app'' = Inr ''app''"
    by (simp add: servingRouter_eq Retrieve_def)
  have reg: "HasBackend servingRouter ''app''"
    by (simp add: servingRouter_eq HasBackend_def)
  have ro: "routesOf servingRouter ''app'' = [''http://10.0.0.1:80'', ''http://10.0.0.2:80'']"
    by (simp add: servingRouter_eq routesOf_def)
  have ok: "\<not> failing servingRouter x" for x
    by (simp add: servingRouter_eq failing_def)
  note present = routes_duplicate_add_absent_remove [OF res reg,
      of "''http://10.0.0.2:80''" "[''http://10.0.0.2:80'', ''http://10.0.0.7:80'']"]
  note absent = routes_duplicate_add_absent_remove [OF res reg,
      of "''http://10.0.0.9:80''" "[''http://10.0.0.9:80'', ''http://10.0.0.1:80'']"]
  from present have a1: "AddRoutes servingRouter ''app'' [''http://10.0.0.2:80''] = (None, servingRouter)"
    by (simp add: ro ok)
  from present have a2:
    "AddRoutes servingRouter ''app'' [''http://10.0.0.2:80'', ''http://10.0.0.7:80'']
       = AddRoutes servingRouter ''app'' [''http://10.0.0.7:80'']"
    by (simp add: ro ok)
  from conjunct1 [OF conjunct2 [OF conjunct2 [OF conjunct2 [OF present]]]] have a3:
    "count_list
       (routesOf (snd (AddRoutes servingRouter ''app''
          [''http://10.0.0.2:80'', ''http://10.0.0.7:80''])) ''app'')
       ''http://10.0.0.2:80'' = 1"
    by (simp add: ro)
  from absent have r1:
    "RemoveRoutes servingRouter ''app'' [''http://10.0.0.9:80''] = (None, servingRouter)"
    by (simp add: ro ok)
  from absent have r2:
    "RemoveRoutes servingRouter ''app'' [''http://10.0.0.9:80'', ''http://10.0.0.1:80'']
       = RemoveRoutes servingRouter ''app'' [''http://10.0.0.1:80'']"
    by (simp add: ro ok)
  from ro a1 a2 a3 r1 r2 show ?thesis
    by (intro conjI)
qed

text \<open>
  C7, as the claim has it, fails: an address that is not a route of the backend but is
  flagged as failing makes \<open>RemoveRoutes\<close> return \<open>ErrForcedFailure\<close>.
\<close>

theorem RemoveRoutes_absent_flagged_counterexample:
  "Retrieve flaggedRouter ''app'' = Inr ''app'' \<and> HasBackend flaggedRouter ''app'' \<and>
   \<not> HasRoute flaggedRouter ''app'' ''http://10.0.0.3:80'' \<and>
   RemoveRoutes flaggedRouter ''app'' [''http://10.0.0.3:80'']
     = (Some ErrForcedFailure, flaggedRouter)"
  using flaggedRouter_flag
  by (simp add: flaggedRouter_retrieve HasBackend_def HasRoute_def flaggedRouter_routes
      RemoveRoutes_def)

subsection \<open>Aliases of a backend that is not registered\<close>

text \<open>
  C9. When the backend that \<open>name\<close> resolves to is not registered, \<open>SetCName\<close>
  returns \<open>nil\<close> and changes nothing, whatever the alias: the check of the backend
  comes before the check of the alias and before the lookup in the alias table. So
  \<open>ErrCNameNotAllowed\<close> and \<open>ErrCNameExists\<close> are returned only for a name whose
  backend is registered.
\<close>

theorem SetCName_unregistered_backend:
  "(Retrieve r name = Inr b \<and> \<not> HasBackend r b \<longrightarrow>
      SetCName validCName r cname name = (None, r)) \<and>
   (fst (SetCName validCName r cname name) = Some ErrCNameNotAllowed \<or>
    fst (SetCName validCName r cname name) = Some ErrCNameExists \<longrightarrow>
      (\<exists>b. Retrieve r name = Inr b \<and> HasBackend r b))"
  by (auto simp: SetCName_def Retrieve_def split: option.splits if_splits)

theorem SetCName_unregistered_backend_witness:
  "Retrieve aliasedRouter ''later'' = Inr ''later'' \<and> \<not> HasBackend aliasedRouter ''later'' \<and>
   cnames aliasedRouter ''www.example.com'' = Some ''app'' \<and>
   SetCName (\<lambda>cname domain. False) aliasedRouter ''www.example.com'' ''later''
     = (None, aliasedRouter) \<and>
   SetCName (\<lambda>cname domain. False) aliasedRouter ''x.fakerouter.com'' ''app''
     = (Some ErrCNameNotAllowed, aliasedRouter) \<and>
   SetCName (\<lambda>cname domain. True) aliasedRouter ''www.example.com'' ''app''
     = (Some ErrCNameExists, aliasedRouter) \<and>
   Retrieve aliasedRouter ''app'' = Inr ''app'' \<and> HasBackend aliasedRouter ''app''"
proof -
  have a: "Retrieve aliasedRouter ''later'' = Inr ''later''"
    by (simp add: aliasedRouter_def Store_def Retrieve_def)
  have b: "\<not> HasBackend aliasedRouter ''later''"
    by (simp add: aliasedRouter_def Store_def SetCName_def AddBackend_def HasBackend_def
        newFakeRouter_def Retrieve_def)
  have c: "cnames aliasedRouter ''www.example.com'' = Some ''app''"
    by (simp add: aliasedRouter_def Store_def SetCName_def AddBackend_def HasBackend_def
        newFakeRouter_def Retrieve_def)
  have d: "Retrieve aliasedRouter ''app'' = Inr ''app''"
    by (simp add: aliasedRouter_def Store_def SetCName_def AddBackend_def HasBackend_def
        newFakeRouter_def Retrieve_def)
  have e: "HasBackend aliasedRouter ''app''"
    by (simp add: aliasedRouter_def Store_def SetCName_def AddBackend_def HasBackend_def
        newFakeRouter_def Retrieve_def)
  have f: "SetCName (\<lambda>cname domain. False) aliasedRouter ''x.fakerouter.com'' ''app''
     = (Some ErrCNameNotAllowed, aliasedRouter)"
    using d e by (simp add: SetCName_def)
  have g: "SetCName (\<lambda>cname domain. True) aliasedRouter ''www.example.com'' ''app''
     = (Some ErrCNameExists, aliasedRouter)"
    using c d e by (simp add: SetCName_def)
  show ?thesis
    using SetCName_unregistered_backend
        [of aliasedRouter "''later''" "''later''" "\<lambda>cname domain. False" "''www.example.com''"]
      SetCName_unregistered_backend
        [of aliasedRouter "''app''" "''app''" "\<lambda>cname domain. False" "''x.fakerouter.com''"]
      a b c d e f g
    by simp
qed

section \<open>Properties of the application aggregate\<close>

subsection \<open>Units\<close>

lemma machineIndex_None: "machineIndex units m = None \<longleftrightarrow> m \<notin> Machine ` set units"
  by (induction units) (auto split: option.splits)

lemma machineIndex_Some:
  "machineIndex units m = Some i \<Longrightarrow>
   i < length units \<and> Machine (units ! i) = m \<and> (\<forall>j < i. Machine (units ! j) \<noteq> m)"
proof (induction units arbitrary: i)
  case Nil
  then show ?case by simp
next
  case (Cons unt units)
  show ?case
  proof (cases "Machine unt = m")
    case True
    with Cons.prems show ?thesis by simp
  next
    case False
    with Cons.prems obtain k where k: "machineIndex units m = Some k" "i = Suc k"
      by (auto split: option.splits)
    from Cons.IH [OF k(1)] False k(2) show ?thesis
      by (auto simp: less_Suc_eq_0_disj)
  qed
qed

lemma map_Machine_update:
  "i < length units \<Longrightarrow> Machine (units ! i) = Machine u \<Longrightarrow>
   map Machine (units[i := u]) = map Machine units"
  by (simp add: map_update list_update_same_conv)

text \<open>
  C10. When a unit of the app is on the machine of \<open>u\<close>, \<open>AddUnit\<close> puts \<open>u\<close> in
  the place of the first such unit and the list keeps its length; otherwise it appends
  \<open>u\<close>. So units on pairwise different machines stay on pairwise different machines.
\<close>

theorem AddUnit_replaces_or_appends:
  "(Machine u \<in> Machine ` set (Units a) \<longrightarrow>
      (\<exists>i < length (Units a).
          Machine (Units a ! i) = Machine u \<and>
          (\<forall>j < i. Machine (Units a ! j) \<noteq> Machine u) \<and>
          Units (AddUnit a u) = (Units a)[i := u]) \<and>
      length (Units (AddUnit a u)) = length (Units a)) \<and>
   (Machine u \<notin> Machine ` set (Units a) \<longrightarrow> Units (AddUnit a u) = Units a @ [u]) \<and>
   (distinct (map Machine (Units a)) \<longrightarrow> distinct (map Machine (Units (AddUnit a u))))"
proof (cases "machineIndex (Units a) (Machine u)")
  case None
  then have "Machine u \<notin> Machine ` set (Units a)"
    by (simp add: machineIndex_None)
  with None show ?thesis
    by (simp add: AddUnit_def)
next
  case (Some i)
  then have here: "Machine u \<in> Machine ` set (Units a)"
    using machineIndex_None [of "Units a" "Machine u"] by simp
  from machineIndex_Some [OF Some] have i: "i < length (Units a)"
    and m: "Machine (Units a ! i) = Machine u"
    and first: "\<forall>j < i. Machine (Units a ! j) \<noteq> Machine u"
    by simp_all
  from Some have upd: "Units (AddUnit a u) = (Units a)[i := u]"
    by (simp add: AddUnit_def)
  from i m first upd have
    "\<exists>i < length (Units a).
        Machine (Units a ! i) = Machine u \<and>
        (\<forall>j < i. Machine (Units a ! j) \<noteq> Machine u) \<and>
        Units (AddUnit a u) = (Units a)[i := u]"
    by blast
  moreover from upd have "length (Units (AddUnit a u)) = length (Units a)"
    by simp
  moreover from upd i m have "map Machine (Units (AddUnit a u)) = map Machine (Units a)"
    by (simp add: map_Machine_update)
  ultimately show ?thesis
    using here by simp
qed

theorem AddUnit_replaces_or_appends_witness:
  "Units (AddUnit blog \<lparr>Machine = 2, Detail = ''10.10.10.9''\<rparr>) =
     [\<lparr>Machine = 1, Detail = ''10.10.10.1''\<rparr>, \<lparr>Machine = 2, Detail = ''10.10.10.9''\<rparr>] \<and>
   Units (AddUnit blog \<lparr>Machine = 3, Detail = ''10.10.10.3''\<rparr>) =
     [\<lparr>Machine = 1, Detail = ''10.10.10.1''\<rparr>, \<lparr>Machine = 2, Detail = ''10.10.10.2''\<rparr>,
      \<lparr>Machine = 3, Detail = ''10.10.10.3''\<rparr>] \<and>
   distinct (map Machine (Units (AddUnit blog \<lparr>Machine = 2, Detail = ''10.10.10.9''\<rparr>))) \<and>
   distinct (map Machine (Units (AddUnit blog \<lparr>Machine = 3, Detail = ''10.10.10.3''\<rparr>)))"
proof -
  have units: "Units blog =
      [\<lparr>Machine = 1, Detail = ''10.10.10.1''\<rparr>, \<lparr>Machine = 2, Detail = ''10.10.10.2''\<rparr>]"
    by (simp add: blog_def)
  note replace = AddUnit_replaces_or_appends [of "\<lparr>Machine = 2, Detail = ''10.10.10.9''\<rparr>" blog]
  note append = AddUnit_replaces_or_appends [of "\<lparr>Machine = 3, Detail = ''10.10.10.3''\<rparr>" blog]
  from replace have r: "Units (AddUnit blog \<lparr>Machine = 2, Detail = ''10.10.10.9''\<rparr>) =
     [\<lparr>Machine = 1, Detail = ''10.10.10.1''\<rparr>, \<lparr>Machine = 2, Detail = ''10.10.10.9''\<rparr>]"
    by (auto simp: units less_Suc_eq)
  from append have a: "Units (AddUnit blog \<lparr>Machine = 3, Detail = ''10.10.10.3''\<rparr>) =
     [\<lparr>Machine = 1, Detail = ''10.10.10.1''\<rparr>, \<lparr>Machine = 2, Detail = ''10.10.10.2''\<rparr>,
      \<lparr>Machine = 3, Detail = ''10.10.10.3''\<rparr>]"
    by (simp add: units)
  from replace have dr:
    "distinct (map Machine (Units (AddUnit blog \<lparr>Machine = 2, Detail = ''10.10.10.9''\<rparr>)))"
    by (simp add: units)
  from append have da:
    "distinct (map Machine (Units (AddUnit blog \<lparr>Machine = 3, Detail = ''10.10.10.3''\<rparr>)))"
    by (simp add: units)
  from r a dr da show ?thesis
    by (intro conjI)
qed

subsection \<open>Creation\<close>

lemma matchUpTo_iff: "matchUpTo cls n cs \<longleftrightarrow> length cs \<le> n \<and> list_all cls cs"
  by (induction cls n cs rule: matchUpTo.induct) auto

lemma isValid_iff: "isValid a \<longleftrightarrow> namingPattern (App.Name a)"
  by (cases "App.Name a") (auto simp: isValid_def namingPattern_def matchUpTo_iff)

lemma runSteps_first_event:
  "\<exists>events. snd (snd (snd (runSteps completed (step # steps) a w))) = Forward (label step) # events"
  by (auto split: prod.splits option.splits)

text \<open>
  C5. \<open>CreateApp\<close> returns the \<open>ValidationError\<close> without running any step exactly
  when the name of the app fails the naming pattern: for such a name the result is the
  error, with the app and the world as they were and no event; for any other name
  \<open>CreateApp\<close> is the run of the pipeline, which begins with the first step.
\<close>

theorem CreateApp_validation:
  "(\<not> namingPattern (App.Name a) \<longrightarrow>
      CreateApp X a w = (Some (ValidationError invalidNameMessage), a, w, [])) \<and>
   (namingPattern (App.Name a) \<longrightarrow>
      CreateApp X a w =
        execute a [insertApp X, createBucketIam X, createRepository X, provision X] w \<and>
      (\<exists>events. eventsOf (CreateApp X a w) = Forward (label (insertApp X)) # events))"
  using runSteps_first_event
    [of "[]" "insertApp X" "[createBucketIam X, createRepository X, provision X]" a w]
  by (simp add: CreateApp_def isValid_iff execute_def eventsOf_def del: runSteps.simps)

theorem CreateApp_validation_witness:
  "\<not> namingPattern ''myApp'' \<and>
   CreateApp calm (blog\<lparr>App.Name := ''myApp''\<rparr>) [] =
     (Some (ValidationError invalidNameMessage), blog\<lparr>App.Name := ''myApp''\<rparr>, [], []) \<and>
   namingPattern ''blog'' \<and>
   CreateApp calm blog [] =
     (None, blog, [''insertApp'', ''createBucketIam'', ''createRepository'', ''provision''],
      [Forward ''insertApp'', Forward ''createBucketIam'', Forward ''createRepository'',
       Forward ''provision''])"
proof -
  have bad: "\<not> namingPattern ''myApp''"
    by (simp add: namingPattern_def lowerLetterOrDigit_def)
  have good: "namingPattern ''blog''"
    by (simp add: namingPattern_def lowerLetterOrDigit_def lowerLetter_def)
  have run: "execute blog
      [insertApp calm, createBucketIam calm, createRepository calm, provision calm] [] =
     (None, blog, [''insertApp'', ''createBucketIam'', ''createRepository'', ''provision''],
      [Forward ''insertApp'', Forward ''createBucketIam'', Forward ''createRepository'',
       Forward ''provision''])"
    by (simp add: execute_def calm_def journalStep_def)
  from CreateApp_validation [of "blog\<lparr>App.Name := ''myApp''\<rparr>" calm "[]"] bad
  have rejected: "CreateApp calm (blog\<lparr>App.Name := ''myApp''\<rparr>) [] =
     (Some (ValidationError invalidNameMessage), blog\<lparr>App.Name := ''myApp''\<rparr>, [], [])"
    by simp
  from CreateApp_validation [of blog calm "[]"] good run
  have accepted: "CreateApp calm blog [] =
     (None, blog, [''insertApp'', ''createBucketIam'', ''createRepository'', ''provision''],
      [Forward ''insertApp'', Forward ''createBucketIam'', Forward ''createRepository'',
       Forward ''provision''])"
    by (simp add: blog_def)
  from bad rejected good accepted show ?thesis
    by (intro conjI)
qed

subsection \<open>Environment variables\<close>

lemma Env_setEnv: "Env (fst (setEnv X a v w)) = (Env a)(EnvVar.Name v \<mapsto> v)"
  by (simp add: setEnv_def Log_def Let_def split: prod.splits)

lemma Env_setEnvs:
  "Env (fst (setEnvs X app envs publicOnly w)) =
     foldl (upsertUnlessPrivate publicOnly) (Env app) envs"
proof (induction envs arbitrary: app w)
  case Nil
  then show ?case by simp
next
  case (Cons v envs)
  show ?case
  proof (cases "publicOnly \<and> isPrivate (Env app) (EnvVar.Name v)")
    case True
    then have skip: "setEnvs X app (v # envs) publicOnly w = setEnvs X app envs publicOnly w"
      by (auto simp: getEnv_def isPrivate_def split: option.splits)
    from True have same: "upsertUnlessPrivate publicOnly (Env app) v = Env app"
      by (simp add: upsertUnlessPrivate_def)
    have "Env (fst (setEnvs X app (v # envs) publicOnly w)) =
            foldl (upsertUnlessPrivate publicOnly) (Env app) envs"
      by (simp only: skip Cons.IH)
    also have "\<dots> = foldl (upsertUnlessPrivate publicOnly) (Env app) (v # envs)"
      by (simp only: foldl_Cons same)
    finally show ?thesis .
  next
    case False
    obtain app' w' where step: "setEnv X app v w = (app', w')"
      by (cases "setEnv X app v w")
    with False have set:
      "setEnvs X app (v # envs) publicOnly w = setEnvs X app' envs publicOnly w'"
      by (auto simp: getEnv_def isPrivate_def split: option.splits)
    from step Env_setEnv [of X app v w] have "Env app' = (Env app)(EnvVar.Name v \<mapsto> v)"
      by simp
    moreover from False
    have "upsertUnlessPrivate publicOnly (Env app) v = (Env app)(EnvVar.Name v \<mapsto> v)"
      by (auto simp: upsertUnlessPrivate_def)
    ultimately have new: "Env app' = upsertUnlessPrivate publicOnly (Env app) v"
      by (simp only:)
    have "Env (fst (setEnvs X app (v # envs) publicOnly w)) =
            foldl (upsertUnlessPrivate publicOnly) (Env app') envs"
      by (simp only: set Cons.IH)
    also have "\<dots> = foldl (upsertUnlessPrivate publicOnly) (Env app) (v # envs)"
      by (simp only: foldl_Cons new)
    finally show ?thesis .
  qed
qed

lemma envAfterSet_foldl:
  "envAfterSet X app envs publicOnly useQueue w =
     foldl (upsertUnlessPrivate publicOnly) (Env app) envs"
proof (cases envs)
  case Nil
  then show ?thesis by (simp add: envAfterSet_def SetEnvsToApp_def)
next
  case (Cons v vs)
  obtain app' w' where run: "setEnvs X app envs publicOnly w = (app', w')"
    by (cases "setEnvs X app envs publicOnly w")
  then have "Env (fst (snd (SetEnvsToApp X app envs publicOnly useQueue w))) = Env app'"
    using Cons by (simp add: SetEnvsToApp_def split: prod.splits option.splits)
  with run Env_setEnvs [of X app envs publicOnly w] show ?thesis
    by (simp add: envAfterSet_def)
qed

lemma foldl_private_kept:
  "env name = Some e \<Longrightarrow> \<not> Public e \<Longrightarrow>
   foldl (upsertUnlessPrivate True) env envs name = Some e"
proof (induction envs arbitrary: env)
  case Nil
  then show ?case by simp
next
  case (Cons v envs)
  have "upsertUnlessPrivate True env v name = Some e"
    using Cons.prems by (auto simp: upsertUnlessPrivate_def isPrivate_def)
  from Cons.IH [of "upsertUnlessPrivate True env v", OF this Cons.prems(2)] show ?case
    by simp
qed

lemma foldl_other_names:
  "name \<notin> EnvVar.Name ` set envs \<Longrightarrow>
   foldl (upsertUnlessPrivate publicOnly) env envs name = env name"
proof (induction envs arbitrary: env)
  case Nil
  then show ?case by simp
next
  case (Cons v envs)
  then have "upsertUnlessPrivate publicOnly env v name = env name"
    by (auto simp: upsertUnlessPrivate_def)
  with Cons show ?case by simp
qed

lemma foldl_upserted:
  "v \<in> set envs \<Longrightarrow> distinct (map EnvVar.Name envs) \<Longrightarrow>
   \<not> (publicOnly \<and> isPrivate env (EnvVar.Name v)) \<Longrightarrow>
   foldl (upsertUnlessPrivate publicOnly) env envs (EnvVar.Name v) = Some v"
proof (induction envs arbitrary: env)
  case Nil
  then show ?case by simp
next
  case (Cons x envs)
  show ?case
  proof (cases "x = v")
    case True
    with Cons.prems have "upsertUnlessPrivate publicOnly env x (EnvVar.Name v) = Some v"
      by (auto simp: upsertUnlessPrivate_def)
    moreover from True Cons.prems have "EnvVar.Name v \<notin> EnvVar.Name ` set envs"
      by simp
    ultimately show ?thesis
      by (simp add: foldl_other_names)
  next
    case False
    with Cons.prems have v: "v \<in> set envs" and d: "distinct (map EnvVar.Name envs)"
      and ne: "EnvVar.Name x \<noteq> EnvVar.Name v"
      by auto
    from ne have "upsertUnlessPrivate publicOnly env x (EnvVar.Name v) = env (EnvVar.Name v)"
      by (auto simp: upsertUnlessPrivate_def)
    then have "\<not> (publicOnly \<and> isPrivate (upsertUnlessPrivate publicOnly env x) (EnvVar.Name v))"
      using Cons.prems(3) by (simp add: isPrivate_def)
    from Cons.IH [OF v d this] show ?thesis by simp
  qed
qed

lemma foldl_from_input:
  "v \<in> set envs \<Longrightarrow>
   \<exists>v' \<in> set envs. EnvVar.Name v' = EnvVar.Name v \<and>
      foldl (upsertUnlessPrivate False) env envs (EnvVar.Name v) = Some v'"
proof (induction envs rule: rev_induct)
  case Nil
  then show ?case by simp
next
  case (snoc x envs)
  show ?case
  proof (cases "EnvVar.Name x = EnvVar.Name v")
    case True
    then show ?thesis
      by (auto simp: upsertUnlessPrivate_def)
  next
    case False
    with snoc.prems have "v \<in> set envs" by auto
    from snoc.IH [OF this] False show ?thesis
      by (auto simp: upsertUnlessPrivate_def)
  qed
qed

text \<open>
  C6. Whatever the collaborators do, the environment after \<open>SetEnvsToApp\<close> is this:
  \<^item> with \<open>publicOnly\<close>, a variable that the app holds marked non-public is left as
    it is;
  \<^item> a variable of the input (a batch without repeated names) whose name the app
    does not hold marked non-public, or any variable of the input when
    \<open>publicOnly\<close> is not set, is stored as given;
  \<^item> without \<open>publicOnly\<close>, every name of the input ends up holding a variable of
    the input (the last one of that name);
  \<^item> names that are not in the input are left as they are;
  \<^item> in general the variables are taken in their order, each one skipped or
    upserted against the environment that the ones before it have left;
  \<^item> so a non-public variable set without \<open>publicOnly\<close> survives a second call that
    sets its name with \<open>publicOnly\<close>, and is replaced by the same call without
    \<open>publicOnly\<close>.
\<close>

theorem SetEnvsToApp_public_only:
  "(publicOnly \<and> Env app name = Some e \<and> \<not> Public e \<longrightarrow>
      envAfterSet X app envs publicOnly useQueue w name = Some e) \<and>
   (v \<in> set envs \<and> distinct (map EnvVar.Name envs) \<and>
    \<not> (publicOnly \<and> isPrivate (Env app) (EnvVar.Name v)) \<longrightarrow>
      envAfterSet X app envs publicOnly useQueue w (EnvVar.Name v) = Some v) \<and>
   (\<not> publicOnly \<and> v \<in> set envs \<longrightarrow>
      (\<exists>v' \<in> set envs. EnvVar.Name v' = EnvVar.Name v \<and>
         envAfterSet X app envs publicOnly useQueue w (EnvVar.Name v) = Some v')) \<and>
   (name \<notin> EnvVar.Name ` set envs \<longrightarrow>
      envAfterSet X app envs publicOnly useQueue w name = Env app name) \<and>
   envAfterSet X app (envs @ [v]) publicOnly useQueue w =
     upsertUnlessPrivate publicOnly (envAfterSet X app envs publicOnly useQueue w) v \<and>
   (\<not> Public x1 \<and> EnvVar.Name x2 = EnvVar.Name x1 \<longrightarrow>
      envAfterSet X (fst (snd (SetEnvsToApp X app [x1] False useQueue w))) [x2] True
        useQueue' w' (EnvVar.Name x1) = Some x1 \<and>
      envAfterSet X (fst (snd (SetEnvsToApp X app [x1] False useQueue w))) [x2] False
        useQueue' w' (EnvVar.Name x1) = Some x2)"
proof -
  have first: "Env (fst (snd (SetEnvsToApp X app [x1] False useQueue w))) (EnvVar.Name x1)
                 = Some x1"
    using envAfterSet_foldl [of X app "[x1]" False useQueue w]
    by (simp add: envAfterSet_def upsertUnlessPrivate_def)
  have twice: "\<not> Public x1 \<and> EnvVar.Name x2 = EnvVar.Name x1 \<longrightarrow>
      envAfterSet X (fst (snd (SetEnvsToApp X app [x1] False useQueue w))) [x2] True
        useQueue' w' (EnvVar.Name x1) = Some x1 \<and>
      envAfterSet X (fst (snd (SetEnvsToApp X app [x1] False useQueue w))) [x2] False
        useQueue' w' (EnvVar.Name x1) = Some x2"
    using first by (simp add: envAfterSet_foldl upsertUnlessPrivate_def isPrivate_def)
  have input: "\<not> publicOnly \<and> v \<in> set envs \<longrightarrow>
      (\<exists>v' \<in> set envs. EnvVar.Name v' = EnvVar.Name v \<and>
         envAfterSet X app envs publicOnly useQueue w (EnvVar.Name v) = Some v')"
    using foldl_from_input [of v envs "Env app"] by (auto simp: envAfterSet_foldl)
  show ?thesis
    using twice input
    by (simp add: envAfterSet_foldl foldl_private_kept foldl_other_names foldl_upserted)
qed

theorem SetEnvsToApp_public_only_witness:
  "envAfterSet calm blog [privateX] False False [] ''X'' = Some privateX \<and>
   envAfterSet calm (fst (snd (SetEnvsToApp calm blog [privateX] False False []))) [publicX]
     True False [] ''X'' = Some privateX \<and>
   envAfterSet calm (fst (snd (SetEnvsToApp calm blog [privateX] False False []))) [publicX]
     False False [] ''X'' = Some publicX \<and>
   Value privateX = ''1'' \<and> Value publicX = ''2'' \<and>
   envAfterSet calm blog [privateX] False False [] ''Y'' = None"
proof -
  note fresh = SetEnvsToApp_public_only
    [where publicOnly = False and app = blog and name = "''Y''" and e = privateX and X = calm
       and envs = "[privateX]" and useQueue = False and w = "[]" and v = privateX
       and ?x1.0 = privateX and ?x2.0 = publicX and useQueue' = False and w' = "[]"]
  from fresh have a: "envAfterSet calm blog [privateX] False False [] ''X'' = Some privateX"
    by (simp add: privateX_def)
  from fresh have b:
    "envAfterSet calm (fst (snd (SetEnvsToApp calm blog [privateX] False False []))) [publicX]
       True False [] ''X'' = Some privateX"
    by (simp add: privateX_def publicX_def)
  from fresh have c:
    "envAfterSet calm (fst (snd (SetEnvsToApp calm blog [privateX] False False []))) [publicX]
       False False [] ''X'' = Some publicX"
    by (simp add: privateX_def publicX_def)
  from fresh have d: "envAfterSet calm blog [privateX] False False [] ''Y'' = None"
    by (simp add: privateX_def blog_def)
  from a b c d show ?thesis
    by (simp add: privateX_def publicX_def)
qed

subsection \<open>Restart hooks\<close>

lemma hooks_Log: "Log X a message source w = (logErr, a', w') \<Longrightarrow> hooks a' = hooks a"
  by (auto simp: Log_def Let_def split: prod.splits)

text \<open>
  C8, as the code has it. For an app whose hooks are not loaded yet:
  \<^item> when \<open>repository.GetPath\<close> fails, \<open>loadHooks\<close> returns that error;
  \<^item> when the command that reads \<open>app.conf\<close> on the unit fails, \<open>loadHooks\<close>
    returns \<open>nil\<close> and the app has hooks with no command in them;
  \<^item> when the output of the command is not parsed as YAML, \<open>loadHooks\<close> returns
    the error of the parser.
\<close>

theorem loadHooks_failures:
  assumes "hooks a = None"
  shows "(GetPath X w = Inl err \<longrightarrow> fst (loadHooks X a w) = Some err) \<and>
         (GetPath X w = Inr uRepo \<and>
          Command X (Unit a) (a\<lparr>hooks := Some \<lparr>PreRestart = [], PosRestart = []\<rparr>\<rparr>)
            (''cat '' @ pathJoin X uRepo ''app.conf'') w = ((Some err, buf), w1) \<longrightarrow>
            fst (loadHooks X a w) = None \<and>
            hooks (fst (snd (loadHooks X a w))) = Some \<lparr>PreRestart = [], PosRestart = []\<rparr>) \<and>
         (GetPath X w = Inr uRepo \<and>
          Command X (Unit a) (a\<lparr>hooks := Some \<lparr>PreRestart = [], PosRestart = []\<rparr>\<rparr>)
            (''cat '' @ pathJoin X uRepo ''app.conf'') w = ((None, buf), w1) \<and>
          Unmarshal X (FilterOutput X buf) \<lparr>PreRestart = [], PosRestart = []\<rparr> = (Some err, c) \<longrightarrow>
            fst (loadHooks X a w) = Some err)"
proof -
  have unit: "Unit (a\<lparr>hooks := Some \<lparr>PreRestart = [], PosRestart = []\<rparr>\<rparr>) = Unit a"
    by (simp add: Unit_def)
  show ?thesis
    using assms
    by (auto simp: loadHooks_def Let_def unit split: prod.splits dest: hooks_Log)
qed

theorem loadHooks_failures_witness:
  "fst (loadHooks noRepository blog []) = Some (ErrorString ''key git:unit-repo not found'') \<and>
   fst (loadHooks noConfFile blog []) = None \<and>
   hooks (fst (snd (loadHooks noConfFile blog []))) = Some \<lparr>PreRestart = [], PosRestart = []\<rparr> \<and>
   fst (loadHooks badYaml blog []) = Some (ErrorString ''YAML error: line 1'')"
proof -
  have fresh: "hooks blog = None"
    by (simp add: blog_def)
  from loadHooks_failures [OF fresh, of noRepository "[]" "ErrorString ''key git:unit-repo not found''"]
  have a: "fst (loadHooks noRepository blog []) = Some (ErrorString ''key git:unit-repo not found'')"
    by (simp add: noRepository_def)
  from loadHooks_failures [OF fresh, of noConfFile "[]" "ErrorString ''exit status 1''"
      "''/home/application/current''" "''cat: app.conf: No such file or directory''" "[]"]
  have b: "fst (loadHooks noConfFile blog []) = None \<and>
     hooks (fst (snd (loadHooks noConfFile blog []))) = Some \<lparr>PreRestart = [], PosRestart = []\<rparr>"
    by (simp add: noConfFile_def calm_def)
  from loadHooks_failures [OF fresh, of badYaml "[]" "ErrorString ''YAML error: line 1''"
      "''/home/application/current''" "''pre-restart: [testdata/pre.sh]''" "[]"
      "\<lparr>PreRestart = [], PosRestart = []\<rparr>"]
  have c: "fst (loadHooks badYaml blog []) = Some (ErrorString ''YAML error: line 1'')"
    by (simp add: badYaml_def calm_def)
  from a b c show ?thesis
    by simp
qed

text \<open>
  C8, as the claim has it, fails: a failure of \<open>repository.GetPath\<close> happens while
  the hook source is fetched, and \<open>loadHooks\<close> returns it instead of \<open>nil\<close>.
\<close>

theorem loadHooks_GetPath_counterexample:
  "hooks blog = None \<and>
   GetPath noRepository [] = Inl (ErrorString ''key git:unit-repo not found'') \<and>
   fst (loadHooks noRepository blog []) = Some (ErrorString ''key git:unit-repo not found'')"
  by (simp add: blog_def noRepository_def loadHooks_def Let_def split: prod.splits)

subsection \<open>Teams\<close>

text \<open>
  The binary search: on a sorted list, \<open>Find\<close> gives the number of teams that
  sort before the team, and whether the team is in the list.
\<close>

lemma searchLoop_bounds:
  "i \<le> j \<Longrightarrow> i \<le> searchLoop f i j \<and> searchLoop f i j \<le> j"
proof (induction f i j rule: searchLoop.induct)
  case (1 f i j)
  show ?case
  proof (cases "i < j")
    case False
    with "1.prems" show ?thesis by (simp add: searchLoop.simps)
  next
    case True
    define h where "h = (i + j) div 2"
    from True have h: "i \<le> h" "h < j" by (simp_all add: h_def)
    have unfold: "searchLoop f i j = (if \<not> f h then searchLoop f (h + 1) j else searchLoop f i h)"
      using True by (subst searchLoop.simps) (simp add: h_def Let_def)
    show ?thesis
    proof (cases "f h")
      case True
      from "1.IH"(2) [of h] \<open>i < j\<close> True h have "i \<le> searchLoop f i h \<and> searchLoop f i h \<le> h"
        by (simp add: h_def)
      with True h unfold show ?thesis by simp
    next
      case False
      from "1.IH"(1) [of h] \<open>i < j\<close> False h
      have "h + 1 \<le> searchLoop f (h + 1) j \<and> searchLoop f (h + 1) j \<le> j"
        by (simp add: h_def)
      with False h unfold show ?thesis by simp
    qed
  qed
qed

lemma searchLoop_boundary:
  assumes "i \<le> j" and "j \<le> n" and "\<forall>k < i. \<not> f k" and "\<forall>k. j \<le> k \<and> k < n \<longrightarrow> f k"
    and mono: "\<forall>k l. k \<le> l \<and> l < n \<and> f k \<longrightarrow> f l"
  shows "(\<forall>k < searchLoop f i j. \<not> f k) \<and> (\<forall>k. searchLoop f i j \<le> k \<and> k < n \<longrightarrow> f k)"
  using assms
proof (induction f i j rule: searchLoop.induct)
  case (1 f i j)
  show ?case
  proof (cases "i < j")
    case False
    with "1.prems"(1) have "searchLoop f i j = j" "i = j"
      by (simp_all add: searchLoop.simps)
    with "1.prems" show ?thesis by simp
  next
    case True
    define h where "h = (i + j) div 2"
    from True have h: "i \<le> h" "h < j" by (simp_all add: h_def)
    have unfold: "searchLoop f i j = (if \<not> f h then searchLoop f (h + 1) j else searchLoop f i h)"
      using True by (subst searchLoop.simps) (simp add: h_def Let_def)
    show ?thesis
    proof (cases "f h")
      case True
      have above: "\<forall>k. h \<le> k \<and> k < n \<longrightarrow> f k"
        using True "1.prems"(5) by blast
      have "(\<forall>k < searchLoop f i h. \<not> f k) \<and> (\<forall>k. searchLoop f i h \<le> k \<and> k < n \<longrightarrow> f k)"
      proof (rule "1.IH"(2) [of h])
        show "i < j" by fact
        show "h = (i + j) div 2" by (simp add: h_def)
        show "\<not> \<not> f h" using True by simp
        show "i \<le> h" by fact
        show "h \<le> n" using h "1.prems"(2) by simp
        show "\<forall>k<i. \<not> f k" by fact
        show "\<forall>k. h \<le> k \<and> k < n \<longrightarrow> f k" by fact
        show "\<forall>k l. k \<le> l \<and> l < n \<and> f k \<longrightarrow> f l" by fact
      qed
      with True unfold show ?thesis by simp
    next
      case False
      have below: "\<forall>k < h + 1. \<not> f k"
      proof (intro allI impI)
        fix k
        assume "k < h + 1"
        then have "k \<le> h" by simp
        moreover have "h < n" using h "1.prems"(2) by simp
        ultimately show "\<not> f k"
          using False "1.prems"(5) by blast
      qed
      have "(\<forall>k < searchLoop f (h + 1) j. \<not> f k) \<and>
            (\<forall>k. searchLoop f (h + 1) j \<le> k \<and> k < n \<longrightarrow> f k)"
      proof (rule "1.IH"(1) [of h])
        show "i < j" by fact
        show "h = (i + j) div 2" by (simp add: h_def)
        show "\<not> f h" by fact
        show "h + 1 \<le> j" using h by simp
        show "j \<le> n" by fact
        show "\<forall>k<h + 1. \<not> f k" by fact
        show "\<forall>k. j \<le> k \<and> k < n \<longrightarrow> f k" by fact
        show "\<forall>k l. k \<le> l \<and> l < n \<and> f k \<longrightarrow> f l" by fact
      qed
      with False unfold show ?thesis by simp
    qed
  qed
qed

lemma Search_sorted:
  assumes "sorted ts"
  shows "Search (length ts) (\<lambda>i. ts ! i \<ge> t) = length (filter (\<lambda>x. x < t) ts)"
proof -
  define f where "f = (\<lambda>i. ts ! i \<ge> t)"
  define p where "p = searchLoop f 0 (length ts)"
  have mono: "\<forall>k l. k \<le> l \<and> l < length ts \<and> f k \<longrightarrow> f l"
    unfolding f_def using assms by (meson order_trans sorted_nth_mono)
  have le: "p \<le> length ts"
    using searchLoop_bounds [of 0 "length ts" f] by (simp add: p_def)
  have b: "(\<forall>k < p. \<not> f k) \<and> (\<forall>k. p \<le> k \<and> k < length ts \<longrightarrow> f k)"
    unfolding p_def using mono by (intro searchLoop_boundary) auto
  have lower: "\<forall>x \<in> set (take p ts). x < t"
  proof
    fix x assume "x \<in> set (take p ts)"
    then obtain k where "k < p" "x = ts ! k"
      using le by (auto simp: in_set_conv_nth)
    with b show "x < t" by (simp add: f_def not_le)
  qed
  have upper: "\<forall>x \<in> set (drop p ts). \<not> x < t"
  proof
    fix x assume "x \<in> set (drop p ts)"
    then obtain k where "k < length ts - p" "x = ts ! (p + k)"
      by (auto simp: in_set_conv_nth)
    with b show "\<not> x < t" by (simp add: f_def not_less)
  qed
  have "filter (\<lambda>x. x < t) ts =
          filter (\<lambda>x. x < t) (take p ts) @ filter (\<lambda>x. x < t) (drop p ts)"
    by (metis append_take_drop_id filter_append)
  also have "filter (\<lambda>x. x < t) (take p ts) = take p ts"
    using lower by (simp add: filter_id_conv)
  also have "filter (\<lambda>x. x < t) (drop p ts) = []"
    using upper by (simp add: filter_empty_conv)
  finally have "length (filter (\<lambda>x. x < t) ts) = length (take p ts)"
    by simp
  with le show ?thesis by (simp add: Search_def p_def f_def)
qed

text \<open>
  The loop of \<open>Grant\<close>, started as \<open>Grant\<close> starts it (\<open>tmp\<close> is the element
  at \<open>i\<close>): every later place receives the element that was at \<open>i\<close>.
\<close>

lemma shiftTeams_closed:
  "i < length ts \<Longrightarrow>
   shiftTeams ts (ts ! i) i = take (Suc i) ts @ replicate (length ts - Suc i) (ts ! i)"
proof (induction "length ts - Suc i" arbitrary: ts i)
  case 0
  then have last: "Suc i = length ts" by simp
  then have "\<not> i < length ts - 1" by simp
  then have "shiftTeams ts (ts ! i) i = ts"
    by (subst shiftTeams.simps) simp
  with last show ?case by simp
next
  case (Suc n)
  define ts' where "ts' = ts[Suc i := ts ! i]"
  from Suc.hyps(2) have more: "i < length ts - 1" by simp
  have len: "length ts' = length ts" by (simp add: ts'_def)
  have here: "ts' ! Suc i = ts ! i"
    using more by (simp add: ts'_def)
  have front: "take (Suc i) ts' = take (Suc i) ts"
    by (simp add: ts'_def)
  have "shiftTeams ts (ts ! i) i = shiftTeams ts' (ts' ! Suc i) (Suc i)"
    using more by (subst shiftTeams.simps) (simp add: ts'_def)
  also have "\<dots> = take (Suc (Suc i)) ts' @ replicate (length ts' - Suc (Suc i)) (ts' ! Suc i)"
  proof (rule Suc.hyps(1))
    show "n = length ts' - Suc (Suc i)" using Suc.hyps(2) len by simp
    show "Suc i < length ts'" using more len by simp
  qed
  also have "take (Suc (Suc i)) ts' = take (Suc i) ts @ [ts ! i]"
    using more len here front by (simp add: take_Suc_conv_app_nth [of "Suc i" ts'])
  also have "(take (Suc i) ts @ [ts ! i]) @ replicate (length ts' - Suc (Suc i)) (ts' ! Suc i)
             = take (Suc i) ts @ replicate (Suc (length ts - Suc (Suc i))) (ts ! i)"
    by (simp add: len here)
  also have "Suc (length ts - Suc (Suc i)) = length ts - Suc i"
    using more by simp
  finally show ?case .
qed

lemma sorted_filter_less_take:
  "sorted ts \<Longrightarrow> filter (\<lambda>x. x < t) ts = take (length (filter (\<lambda>x. x < t) ts)) ts"
proof (induction ts)
  case Nil
  then show ?case by simp
next
  case (Cons x ts)
  show ?case
  proof (cases "x < t")
    case True
    with Cons show ?thesis by simp
  next
    case False
    with Cons.prems have "\<forall>y \<in> set ts. \<not> y < t" by auto
    then have "filter (\<lambda>x. x < t) ts = []"
      by (simp add: filter_empty_conv)
    with False show ?thesis by simp
  qed
qed

lemma sorted_drop_not_less:
  "sorted ts \<Longrightarrow> \<forall>x \<in> set (drop (length (filter (\<lambda>x. x < t) ts)) ts). t \<le> x"
proof (induction ts)
  case Nil
  then show ?case by simp
next
  case (Cons x ts)
  show ?case
  proof (cases "x < t")
    case True
    with Cons show ?thesis by simp
  next
    case False
    with Cons.prems have all: "\<forall>y \<in> set (x # ts). t \<le> y" by auto
    then have "filter (\<lambda>x. x < t) (x # ts) = []"
      by (auto simp: filter_empty_conv)
    with all show ?thesis by simp
  qed
qed

lemma sorted_found:
  assumes "sorted ts"
  shows "(length (filter (\<lambda>x. x < t) ts) < length ts \<and>
          ts ! length (filter (\<lambda>x. x < t) ts) = t) \<longleftrightarrow> t \<in> set ts"
proof -
  define p where "p = length (filter (\<lambda>x. x < t) ts)"
  have "(p < length ts \<and> ts ! p = t) \<longleftrightarrow> t \<in> set ts"
  proof
    assume "p < length ts \<and> ts ! p = t"
    then show "t \<in> set ts" by auto
  next
    assume t: "t \<in> set ts"
    have "set (take p ts) = set (filter (\<lambda>x. x < t) ts)"
      using sorted_filter_less_take [OF assms, of t] by (simp add: p_def)
    then have "t \<notin> set (take p ts)" by simp
    with t have in_drop: "t \<in> set (drop p ts)"
      by (metis Un_iff append_take_drop_id set_append)
    then obtain k where k: "t = ts ! (p + k)" "p + k < length ts"
      by (auto simp: in_set_conv_nth)
    then have p: "p < length ts" by simp
    then have "ts ! p \<in> set (drop p ts)"
      by (metis Cons_nth_drop_Suc list.set_intros(1))
    with sorted_drop_not_less [OF assms, of t] have "t \<le> ts ! p"
      by (simp add: p_def)
    moreover from k assms have "ts ! p \<le> t"
      by (simp add: sorted_nth_mono)
    ultimately show "p < length ts \<and> ts ! p = t"
      using p by simp
  qed
  then show ?thesis by (simp add: p_def)
qed

lemma Find_sorted:
  "sorted (Teams a) \<Longrightarrow>
   Find a t = (length (filter (\<lambda>x. x < t) (Teams a)), t \<in> set (Teams a))"
  by (simp add: Find_def Let_def Search_sorted sorted_found)

text \<open>
  What \<open>Grant\<close> and \<open>Revoke\<close> do to a sorted list. \<open>Revoke\<close> cuts the team
  out. \<open>Grant\<close> puts the team at its place, and after it as many copies of the team
  that was at that place as there are teams sorting after the new one. So \<open>Grant\<close>
  is the sorted insertion when at most one team sorts after the new one, and then
  \<open>Revoke\<close> undoes it; with two or more, the last team of the list is lost.
\<close>

lemma Grant_sorted:
  assumes "sorted (Teams a)" and "t \<notin> set (Teams a)"
  shows "Grant a t =
     (None, a\<lparr>Teams :=
        take (length (filter (\<lambda>x. x < t) (Teams a))) (Teams a) @ t #
        replicate (length (filter (\<lambda>x. t < x) (Teams a)))
          (Teams a ! length (filter (\<lambda>x. x < t) (Teams a)))\<rparr>)"
proof -
  define ts where "ts = Teams a"
  define p where "p = length (filter (\<lambda>x. x < t) ts)"
  define teams where "teams = ts @ [[]]"
  have p: "p \<le> length ts" by (simp add: p_def)
  then have p': "p < length teams" by (simp add: teams_def)
  have find: "Find a t = (p, False)"
    using assms by (simp add: Find_sorted p_def ts_def)
  have rest: "length (filter (\<lambda>x. t < x) ts) = length ts - p"
  proof -
    have "filter (\<lambda>x. t < x) ts = filter (\<lambda>x. \<not> x < t) ts"
      using assms(2) by (intro filter_cong) (auto simp: ts_def not_less order_le_less)
    then show ?thesis
      using sum_length_filter_compl [of "\<lambda>x. x < t" ts] by (simp add: p_def)
  qed
  have "(shiftTeams teams (teams ! p) p)[p := t] =
          (take (Suc p) teams @ replicate (length teams - Suc p) (teams ! p))[p := t]"
    using p' by (simp add: shiftTeams_closed)
  also have "\<dots> = (take (Suc p) teams)[p := t] @ replicate (length teams - Suc p) (teams ! p)"
    using p' by (simp add: list_update_append)
  also have "(take (Suc p) teams)[p := t] = take p teams @ [t]"
    using p' by (simp add: take_Suc_conv_app_nth list_update_append)
  also have "take p teams = take p ts"
    using p by (simp add: teams_def)
  also have "length teams - Suc p = length ts - p"
    by (simp add: teams_def)
  finally have shifted:
    "(shiftTeams teams (teams ! p) p)[p := t] =
       take p ts @ t # replicate (length ts - p) (teams ! p)"
    by simp
  have "replicate (length ts - p) (teams ! p) = replicate (length ts - p) (ts ! p)"
  proof (cases "p < length ts")
    case True
    then show ?thesis by (simp add: teams_def nth_append)
  next
    case False
    then show ?thesis by simp
  qed
  with shifted find rest show ?thesis
    by (simp add: Grant_def Let_def teams_def [symmetric] ts_def [symmetric] p_def [symmetric])
qed

lemma Revoke_sorted:
  assumes "sorted (Teams a)" and "t \<in> set (Teams a)"
  shows "Revoke a t =
     (None, a\<lparr>Teams :=
        take (length (filter (\<lambda>x. x < t) (Teams a))) (Teams a) @
        drop (Suc (length (filter (\<lambda>x. x < t) (Teams a)))) (Teams a)\<rparr>)"
proof -
  define ts where "ts = Teams a"
  define p where "p = length (filter (\<lambda>x. x < t) ts)"
  have find: "Find a t = (p, True)"
    using assms by (simp add: Find_sorted p_def ts_def)
  from assms sorted_found [of ts t] have p: "p < length ts"
    by (simp add: p_def ts_def)
  have "min (length ts - p) (length ts - Suc p) = length ts - Suc p"
    by simp
  then have "copy (drop p ts) (drop (p + 1) ts) =
               drop (Suc p) ts @ drop (length ts - Suc p) (drop p ts)"
    by (simp add: copy_def)
  also have "drop (length ts - Suc p) (drop p ts) = drop (length ts - 1) ts"
    using p by simp
  finally have "take p ts @ copy (drop p ts) (drop (p + 1) ts) =
                  (take p ts @ drop (Suc p) ts) @ drop (length ts - 1) ts"
    by simp
  moreover have "length (take p ts @ drop (Suc p) ts) = length ts - 1"
    using p by simp
  moreover have "length (drop (length ts - 1) ts) = 1"
    using p by simp
  ultimately have
    "take (length (take p ts @ copy (drop p ts) (drop (p + 1) ts)) - 1)
       (take p ts @ copy (drop p ts) (drop (p + 1) ts)) = take p ts @ drop (Suc p) ts"
    by simp
  with find show ?thesis
    by (simp add: Revoke_def Let_def ts_def [symmetric] p_def [symmetric])
qed

lemma insort_after_smaller:
  "\<forall>x \<in> set xs. x < t \<Longrightarrow> insort t (xs @ ys) = xs @ insort t ys"
  by (induction xs) auto

lemma insort_before_greater: "\<forall>y \<in> set ys. t \<le> y \<Longrightarrow> insort t ys = t # ys"
  by (cases ys) auto

lemma insort_sorted:
  assumes "sorted ts"
  shows "insort t ts =
           take (length (filter (\<lambda>x. x < t) ts)) ts @ t #
           drop (length (filter (\<lambda>x. x < t) ts)) ts"
proof -
  define p where "p = length (filter (\<lambda>x. x < t) ts)"
  have "set (take p ts) = set (filter (\<lambda>x. x < t) ts)"
    using sorted_filter_less_take [OF assms, of t] by (simp add: p_def)
  then have "\<forall>x \<in> set (take p ts). x < t"
    by simp
  moreover have "\<forall>y \<in> set (drop p ts). t \<le> y"
    using sorted_drop_not_less [OF assms, of t] by (simp add: p_def)
  ultimately have "insort t (take p ts @ drop p ts) = take p ts @ t # drop p ts"
    by (simp only: insort_after_smaller insort_before_greater)
  then show ?thesis by (simp add: p_def)
qed

lemma count_after:
  "t \<notin> set ts \<Longrightarrow>
   length (filter (\<lambda>x. t < x) ts) = length ts - length (filter (\<lambda>x. x < t) ts)"
  for ts :: "string list"
proof -
  assume "t \<notin> set ts"
  then have "filter (\<lambda>x. t < x) ts = filter (\<lambda>x. \<not> x < t) ts"
    by (intro filter_cong) (auto simp: not_less order_le_less)
  then show ?thesis
    using sum_length_filter_compl [of "\<lambda>x. x < t" ts] by simp
qed

lemma Grant_sorted_right:
  assumes "sorted (Teams a)" and "t \<notin> set (Teams a)"
    and "length (filter (\<lambda>x. t < x) (Teams a)) \<le> 1"
  shows "Grant a t = (None, a\<lparr>Teams := insort t (Teams a)\<rparr>)"
proof -
  define ts where "ts = Teams a"
  define p where "p = length (filter (\<lambda>x. x < t) ts)"
  define k where "k = length (filter (\<lambda>x. t < x) ts)"
  have k: "k = length ts - p"
    using assms(2) by (simp add: k_def p_def ts_def count_after)
  have "replicate k (ts ! p) = drop p ts"
  proof (cases "k = 0")
    case True
    with k show ?thesis by simp
  next
    case False
    with assms(3) have "k = 1" unfolding k_def ts_def by linarith
    with k have "Suc p = length ts" by simp
    then have "drop p ts = [ts ! p]"
      by (simp add: Cons_nth_drop_Suc [symmetric])
    with \<open>k = 1\<close> show ?thesis by simp
  qed
  then show ?thesis
    using Grant_sorted [OF assms(1,2)] insort_sorted [OF assms(1), of t]
    by (simp add: ts_def p_def k_def)
qed

lemma Grant_sorted_wrong:
  assumes "sorted (Teams a)" and "distinct (Teams a)" and "t \<notin> set (Teams a)"
    and "2 \<le> length (filter (\<lambda>x. t < x) (Teams a))"
  shows "last (Teams a) \<in> set (Teams a) \<and> last (Teams a) \<notin> set (Teams (snd (Grant a t)))"
proof -
  define ts where "ts = Teams a"
  define p where "p = length (filter (\<lambda>x. x < t) ts)"
  have k: "2 \<le> length ts - p"
    using assms(3,4) by (simp add: p_def ts_def count_after)
  then have ne: "ts \<noteq> []" by auto
  then have last: "last ts = ts ! (length ts - 1)"
    by (simp add: last_conv_nth)
  have "last ts \<in> set ts"
    using ne by simp
  then have "last ts \<noteq> t"
    using assms(3) by (auto simp: ts_def)
  moreover have "last ts \<noteq> ts ! p"
    using k assms(2) last by (simp add: ts_def nth_eq_iff_index_eq)
  moreover have "last ts \<notin> set (take p ts)"
  proof
    assume "last ts \<in> set (take p ts)"
    then obtain i where "i < p" "i < length ts" "ts ! i = last ts"
      by (auto simp: in_set_conv_nth)
    with k assms(2) last show False
      by (simp add: ts_def nth_eq_iff_index_eq)
  qed
  ultimately have "last ts \<notin> set (take p ts @ t # replicate (length ts - p) (ts ! p))"
    by auto
  moreover have "Teams (snd (Grant a t)) = take p ts @ t # replicate (length ts - p) (ts ! p)"
    using Grant_sorted [OF assms(1,3)] assms(3) by (simp add: ts_def p_def count_after)
  ultimately show ?thesis
    using ne by (simp add: ts_def)
qed

lemma Grant_then_Revoke_right:
  assumes "sorted (Teams a)" and "t \<notin> set (Teams a)"
    and "length (filter (\<lambda>x. t < x) (Teams a)) \<le> 1"
  shows "Revoke (snd (Grant a t)) t = (None, a)"
proof -
  define ts where "ts = Teams a"
  define p where "p = length (filter (\<lambda>x. x < t) ts)"
  define a' where "a' = a\<lparr>Teams := insort t ts\<rparr>"
  have a': "snd (Grant a t) = a'"
    using Grant_sorted_right [OF assms] by (simp add: a'_def ts_def)
  have s: "sorted (Teams a')" and m: "t \<in> set (Teams a')"
    using assms(1) by (simp_all add: a'_def ts_def sorted_insort set_insort_key)
  have ins: "insort t ts = take p ts @ t # drop p ts"
    using insort_sorted [OF assms(1), of t] by (simp add: ts_def p_def)
  have "take p ts = filter (\<lambda>x. x < t) ts"
    using sorted_filter_less_take [OF assms(1), of t] by (simp add: p_def ts_def)
  then have "filter (\<lambda>x. x < t) (take p ts) = filter (\<lambda>x. x < t) (filter (\<lambda>x. x < t) ts)"
    by simp
  also have "\<dots> = filter (\<lambda>x. x < t) ts"
    by simp
  finally have lower: "filter (\<lambda>x. x < t) (take p ts) = take p ts"
    using \<open>take p ts = filter (\<lambda>x. x < t) ts\<close> by simp
  have upper: "filter (\<lambda>x. x < t) (drop p ts) = []"
    using sorted_drop_not_less [OF assms(1), of t]
    by (auto simp: filter_empty_conv p_def ts_def)
  have p: "p \<le> length ts"
    by (simp add: p_def)
  have q: "length (filter (\<lambda>x. x < t) (Teams a')) = p"
    using lower upper p by (simp add: a'_def ins)
  have "take p (insort t ts) @ drop (Suc p) (insort t ts) = ts"
    using p by (simp add: ins)
  with Revoke_sorted [OF s m] q have "Revoke a' t = (None, a'\<lparr>Teams := ts\<rparr>)"
    by (simp add: a'_def)
  with a' show ?thesis
    by (simp add: a'_def ts_def)
qed

lemma Find_blog_b: "Find blog ''b'' = (1, False)"
  by (simp add: Find_def Search_def searchLoop.simps blog_def Let_def)

text \<open>
  C1 fails on the code. The teams \<open>a\<close>, \<open>c\<close>, \<open>d\<close> are sorted and hold no team
  twice, and \<open>b\<close> is not among them. \<open>Grant\<close> of \<open>b\<close> succeeds and leaves the teams
  \<open>a\<close>, \<open>b\<close>, \<open>c\<close>, \<open>c\<close>: the team \<open>d\<close> is lost and \<open>c\<close> is there twice. \<open>Revoke\<close>
  of \<open>b\<close> then leaves \<open>a\<close>, \<open>c\<close>, \<open>c\<close>, not the teams before the grant.
\<close>

theorem Grant_overwrites_later_teams:
  "Teams blog = [''a'', ''c'', ''d''] \<and>
   Grant blog ''b'' = (None, blog\<lparr>Teams := [''a'', ''b'', ''c'', ''c'']\<rparr>) \<and>
   Revoke (snd (Grant blog ''b'')) ''b'' = (None, blog\<lparr>Teams := [''a'', ''c'', ''c'']\<rparr>)"
proof -
  have g: "Grant blog ''b'' = (None, blog\<lparr>Teams := [''a'', ''b'', ''c'', ''c'']\<rparr>)"
    by (simp add: Grant_def Find_blog_b) (simp add: blog_def shiftTeams.simps)
  have f: "Find (blog\<lparr>Teams := [''a'', ''b'', ''c'', ''c'']\<rparr>) ''b'' = (1, True)"
    by (simp add: Find_def Search_def searchLoop.simps Let_def)
  have r: "Revoke (blog\<lparr>Teams := [''a'', ''b'', ''c'', ''c'']\<rparr>) ''b''
             = (None, blog\<lparr>Teams := [''a'', ''c'', ''c'']\<rparr>)"
    by (simp add: Revoke_def f copy_def)
  from g r show ?thesis by (simp add: blog_def)
qed

end
